theory Spec2Isabelle
  imports Complex_Main "HOL-Library.Word"
begin

section \<open>Python values used by generate\_red\_profile.py\<close>

text \<open>
  A \<open>bytes\<close> object is a list of 8-bit words. A \<open>str\<close> is a list of Unicode code
  points (natural numbers), so that \<open>len\<close> counts code points as Python does. Python
  integers are unbounded: \<open>int\<close>.
\<close>

type_synonym byte = "8 word"
type_synonym bytes = "byte list"
type_synonym pystr = "nat list"

text \<open>
  The two exceptions the script can raise before it touches the file system:
  \<open>struct.error\<close> (an argument of \<open>struct.pack\<close> out of range) and
  \<open>UnicodeEncodeError\<close> of \<open>str.encode('ascii')\<close>, with its attributes
  \<open>object\<close>, \<open>start\<close> and \<open>end\<close> (\<open>encoding\<close> and \<open>reason\<close> are the same
  for every such error here).
\<close>

datatype error = StructError | UnicodeEncodeError pystr nat nat

definition bindE :: "error + 'a \<Rightarrow> ('a \<Rightarrow> error + 'b) \<Rightarrow> error + 'b" where
  "bindE m f = (case m of Inl e \<Rightarrow> Inl e | Inr x \<Rightarrow> f x)"

text \<open>A bytes literal of printable ASCII characters, and a str literal.\<close>

definition ascii :: "string \<Rightarrow> bytes" where
  "ascii s = map of_char s"

definition str :: "string \<Rightarrow> pystr" where
  "str s = map of_char s"

subsection \<open>struct.pack, big-endian\<close>

definition u32_bytes :: "int \<Rightarrow> bytes" where
  "u32_bytes n = [word_of_int (n div 2 ^ 24), word_of_int (n div 2 ^ 16),
                  word_of_int (n div 2 ^ 8), word_of_int n]"

definition u16_bytes :: "int \<Rightarrow> bytes" where
  "u16_bytes n = [word_of_int (n div 2 ^ 8), word_of_int n]"

text \<open>\<open>struct.pack('>I', n)\<close> and \<open>struct.pack('>H', n)\<close>.\<close>

definition pack_I :: "int \<Rightarrow> error + bytes" where
  "pack_I n = (if 0 \<le> n \<and> n < 2 ^ 32 then Inr (u32_bytes n) else Inl StructError)"

definition pack_H :: "int \<Rightarrow> error + bytes" where
  "pack_H n = (if 0 \<le> n \<and> n < 2 ^ 16 then Inr (u16_bytes n) else Inl StructError)"

text \<open>\<open>struct.pack('>III', x, y, z)\<close>.\<close>

definition pack_III :: "int \<Rightarrow> int \<Rightarrow> int \<Rightarrow> error + bytes" where
  "pack_III x y z =
     bindE (pack_I x) (\<lambda>a. bindE (pack_I y) (\<lambda>b. bindE (pack_I z) (\<lambda>c. Inr (a @ b @ c))))"

text \<open>
  Reading an unsigned big-endian integer back (\<open>int.from_bytes(bs, 'big')\<close>); the
  script never does it, the properties of the tag table and of the size field are stated
  with it.
\<close>

definition be_uint :: "bytes \<Rightarrow> int" where
  "be_uint bs = foldl (\<lambda>a b. a * 256 + uint b) 0 bs"

subsection \<open>str.encode('ascii')\<close>

text \<open>
  The error reports the first maximal run of characters that are not ASCII, from
  \<open>start\<close> up to \<open>end\<close>.
\<close>

definition encode_ascii :: "pystr \<Rightarrow> error + bytes" where
  "encode_ascii text =
     (if list_all (\<lambda>c. c < 128) text then Inr (map of_nat text)
      else let start = length (takeWhile (\<lambda>c. c < 128) text);
               stop = start + length (takeWhile (\<lambda>c. 128 \<le> c) (drop start text))
           in Inl (UnicodeEncodeError text start stop))"

subsection \<open>Floating point\<close>

text \<open>
  A Python \<open>float\<close> is an IEEE 754 binary64 number. The finite ones are rational
  numbers, and each arithmetic operation returns the exact result rounded to the nearest
  number with a 53-bit significand, ties to the even significand. \<open>round_double\<close> is
  that rounding (with the gradual underflow below \<open>2 ^ -1022\<close>); the overflow above
  the largest finite double is not modelled: the operands here are between 0 and 65535.
  \<open>bit_length\<close> is the number of binary digits of a natural number.
\<close>

fun bit_length :: "nat \<Rightarrow> nat" where
  "bit_length n = (if n = 0 then 0 else Suc (bit_length (n div 2)))"

declare bit_length.simps [simp del]

definition pow2 :: "int \<Rightarrow> real" where
  "pow2 k = (if 0 \<le> k then 2 ^ nat k else 1 / 2 ^ nat (- k))"

text \<open>The exponent \<open>e\<close> with \<open>2 ^ e \<le> x < 2 ^ (e + 1)\<close>, for a positive \<open>x\<close>.\<close>

definition ilog2 :: "real \<Rightarrow> int" where
  "ilog2 x = (if 1 \<le> x then int (bit_length (nat \<lfloor>x\<rfloor>)) - 1
              else - int (bit_length (nat (\<lceil>1 / x\<rceil> - 1))))"

definition round_half_even :: "real \<Rightarrow> int" where
  "round_half_even x =
     (let f = \<lfloor>x\<rfloor>; d = x - of_int f
      in if d < 1 / 2 then f else if 1 / 2 < d then f + 1
         else if even f then f else f + 1)"

definition round_double :: "real \<Rightarrow> real" where
  "round_double x =
     (if x = 0 then 0
      else let e = max (ilog2 \<bar>x\<bar>) (- 1022); u = pow2 (e - 52)
           in sgn x * of_int (round_half_even (\<bar>x\<bar> / u)) * u)"

text \<open>\<open>a / b\<close> and \<open>a * b\<close> on floats, and \<open>int(x)\<close>, which truncates towards zero.\<close>

definition float_truediv :: "real \<Rightarrow> real \<Rightarrow> real" where
  "float_truediv a b = round_double (a / b)"

definition float_mul :: "real \<Rightarrow> real \<Rightarrow> real" where
  "float_mul a b = round_double (a * b)"

definition int_of_float :: "real \<Rightarrow> int" where
  "int_of_float x = (if 0 \<le> x then \<lfloor>x\<rfloor> else \<lceil>x\<rceil>)"

section \<open>The tone curve\<close>

text \<open>
  \<^verbatim>\<open>value_16bit = int((value / 255.0) * 65535)\<close>: the integer \<open>value\<close> and the
  integer 65535 are converted to floats exactly.
\<close>

definition value_16bit :: "int \<Rightarrow> int" where
  "value_16bit v = int_of_float (float_mul (float_truediv (of_int v) 255) 65535)"

text \<open>
  \<^verbatim>\<open>for i in range(256): value = min(255, max(0, i + offset)); curve.append(...)\<close>
\<close>

definition create_curve_data :: "int \<Rightarrow> int list" where
  "create_curve_data offset =
     map (\<lambda>i. value_16bit (min 255 (max 0 (i + offset)))) [0..255]"

text \<open>
  What the specification says of a sample: \<open>round(clamp(i + o, 0, 255) / 255 * 65535)\<close>,
  in exact arithmetic. The number rounded is an integer, so that the rounding rule for
  ties plays no role.
\<close>

definition spec_sample :: "int \<Rightarrow> int \<Rightarrow> int" where
  "spec_sample offset i =
     round (real_of_int (min 255 (max 0 (i + offset))) / 255 * 65535)"

section \<open>Helpers\<close>

text \<open>\<open>write_tag\<close> is defined by the script and never called.\<close>

definition write_tag :: "bytes \<Rightarrow> bytes \<Rightarrow> error + bytes" where
  "write_tag tag_signature data =
     bindE (pack_I 0) (\<lambda>zero. Inr (tag_signature @ zero @ data))"


definition pad_to_4bytes :: "bytes \<Rightarrow> bytes" where
  "pad_to_4bytes data =
     (let remainder = length data mod 4
      in if remainder \<noteq> 0 then data @ replicate (4 - remainder) 0 else data)"

section \<open>The tags\<close>

text \<open>
  \<^verbatim>\<open>b''.join(struct.pack('>H', v) for v in curve_values)\<close>: the samples are packed
  in order, and the first one out of range raises.
\<close>

fun pack_H_join :: "int list \<Rightarrow> error + bytes" where
  "pack_H_join [] = Inr []"
| "pack_H_join (v # vs) =
     bindE (pack_H v) (\<lambda>b. bindE (pack_H_join vs) (\<lambda>bs. Inr (b @ bs)))"

definition create_curve_tag :: "int list \<Rightarrow> error + bytes" where
  "create_curve_tag curve_values =
     bindE (pack_I (int (length curve_values))) (\<lambda>count.
     bindE (pack_H_join curve_values) (\<lambda>values.
       Inr (ascii ''curv'' @ [0, 0, 0, 0] @ count @ values)))"

definition create_text_desc_tag :: "pystr \<Rightarrow> error + bytes" where
  "create_text_desc_tag text =
     bindE (pack_I (int (length text) + 1)) (\<lambda>ascii_len.
     bindE (encode_ascii text) (\<lambda>encoded.
     bindE (pack_I 0) (\<lambda>unicode_code.
     bindE (pack_I 0) (\<lambda>unicode_len.
     bindE (pack_H 0) (\<lambda>script_code.
       Inr (ascii ''desc'' @ [0, 0, 0, 0] @ ascii_len @ (encoded @ [0]) @
            unicode_code @ unicode_len @ script_code @ [0]))))))"

definition create_xyz_tag :: "int \<Rightarrow> int \<Rightarrow> int \<Rightarrow> error + bytes" where
  "create_xyz_tag x y z =
     bindE (pack_III x y z) (\<lambda>xyz. Inr (ascii ''XYZ '' @ [0, 0, 0, 0] @ xyz))"

section \<open>The profile\<close>

text \<open>The creation date of the header, a constant of the script.\<close>

definition creation_date :: bytes where
  "creation_date = [0x07, 0xe9, 0x0b, 0x0a, 0, 0, 0, 0, 0, 0, 0, 0]"

text \<open>
  The 128 bytes of the header, in the order of the script: size placeholder, preferred
  CMM, version, class, colour space, connection space, creation date, signature,
  platform, flags, manufacturer, model, attributes, rendering intent, illuminant,
  creator, 44 reserved bytes.
\<close>

definition header :: "bytes \<Rightarrow> bytes" where
  "header pcs_illuminant =
     [0, 0, 0, 0] @ [0, 0, 0, 0] @ [0x02, 0x10, 0, 0] @ ascii ''mntr'' @ ascii ''RGB '' @
     ascii ''XYZ '' @ creation_date @ ascii ''acsp'' @ ascii ''MSFT'' @ [0, 0, 0, 0] @
     [0, 0, 0, 0] @ [0, 0, 0, 0] @ [0, 0, 0, 0, 0, 0, 0, 0] @ [0, 0, 0, 0] @
     pcs_illuminant @ ascii ''CLDE'' @ replicate 44 0"

text \<open>
  The loop over \<open>tag_signatures\<close>. Its state is the list of tag table entries, the data
  section and the current offset.
\<close>

fun tag_loop ::
  "(bytes \<times> bytes) list \<Rightarrow> bytes list \<times> bytes \<times> int \<Rightarrow> error + bytes list \<times> bytes \<times> int"
where
  "tag_loop [] state = Inr state"
| "tag_loop ((sig, tag_data) # rest) (tag_table_entries, tag_data_section, current_offset) =
     (let tag_data = pad_to_4bytes tag_data in
      bindE (pack_I current_offset) (\<lambda>offset_field.
      bindE (pack_I (int (length tag_data))) (\<lambda>length_field.
        tag_loop rest
          (tag_table_entries @ [sig @ offset_field @ length_field],
           tag_data_section @ tag_data,
           current_offset + int (length tag_data)))))"

text \<open>
  What the loop appends to the tag table when no field overflows, starting at a given
  offset: for each tag its signature, the offset reached and the padded length.
\<close>

fun table_entries :: "int \<Rightarrow> (bytes \<times> bytes) list \<Rightarrow> bytes list" where
  "table_entries off [] = []"
| "table_entries off ((sig, tag_data) # rest) =
     (sig @ u32_bytes off @ u32_bytes (int (length (pad_to_4bytes tag_data)))) #
     table_entries (off + int (length (pad_to_4bytes tag_data))) rest"

text \<open>
  The second half of \<open>create_icc_profile\<close>, from \<open>tags_data = []\<close> to the end: the
  offsets, the tag table, the concatenation and the size field.
\<close>

definition assemble :: "bytes \<Rightarrow> int \<Rightarrow> (bytes \<times> bytes) list \<Rightarrow> error + bytes" where
  "assemble hdr tag_count tag_signatures =
     (let current_offset = 128 + 4 + tag_count * 12 in
      bindE (tag_loop tag_signatures ([], [], current_offset))
        (\<lambda>(tag_table_entries, tag_data_section, final_offset).
      bindE (pack_I tag_count) (\<lambda>count_field.
        let tag_table = count_field @ concat tag_table_entries;
            profile = hdr @ tag_table @ tag_data_section;
            profile_size = int (length profile)
        in bindE (pack_I profile_size) (\<lambda>size_field.
             Inr (size_field @ drop 4 profile)))))"

text \<open>The list \<open>tag_signatures\<close> of the script: the nine tags in the order of the table.\<close>

definition tag_signatures ::
  "bytes \<Rightarrow> bytes \<Rightarrow> bytes \<Rightarrow> bytes \<Rightarrow> bytes \<Rightarrow> bytes \<Rightarrow> bytes \<Rightarrow> bytes \<Rightarrow> bytes
     \<Rightarrow> (bytes \<times> bytes) list"
where
  "tag_signatures desc_tag copyright_tag wtpt_tag rXYZ_tag gXYZ_tag bXYZ_tag
       red_curve_tag green_curve_tag blue_curve_tag =
     [(ascii ''desc'', desc_tag),
      (ascii ''cprt'', copyright_tag),
      (ascii ''wtpt'', wtpt_tag),
      (ascii ''rXYZ'', rXYZ_tag),
      (ascii ''gXYZ'', gXYZ_tag),
      (ascii ''bXYZ'', bXYZ_tag),
      (ascii ''rTRC'', red_curve_tag),
      (ascii ''gTRC'', green_curve_tag),
      (ascii ''bTRC'', blue_curve_tag)]"

text \<open>
  \<open>create_icc_profile\<close>, with its five literals as parameters: the two texts and the
  three curve offsets.
\<close>

definition create_icc_profile_with ::
  "pystr \<Rightarrow> pystr \<Rightarrow> int \<Rightarrow> int \<Rightarrow> int \<Rightarrow> error + bytes"
where
  "create_icc_profile_with desc_text copyright_text red_offset green_offset blue_offset =
     bindE (pack_III 0x0000F6D6 0x00010000 0x0000D32D) (\<lambda>pcs_illuminant.
     let hdr = header pcs_illuminant;
         tag_count = 9;
         red_curve = create_curve_data red_offset;
         green_curve = create_curve_data green_offset;
         blue_curve = create_curve_data blue_offset
     in
     bindE (create_curve_tag red_curve) (\<lambda>red_curve_tag.
     bindE (create_curve_tag green_curve) (\<lambda>green_curve_tag.
     bindE (create_curve_tag blue_curve) (\<lambda>blue_curve_tag.
     bindE (create_text_desc_tag desc_text) (\<lambda>desc_tag.
     bindE (create_text_desc_tag copyright_text) (\<lambda>copyright_tag.
     bindE (create_xyz_tag 0x0000F6D6 0x00010000 0x0000D32D) (\<lambda>wtpt_tag.
     bindE (create_xyz_tag 0x0000F351 0x00010000 0x0000D32D) (\<lambda>rXYZ_tag.
     bindE (create_xyz_tag 0x00006FA2 0x00010000 0x0000D32D) (\<lambda>gXYZ_tag.
     bindE (create_xyz_tag 0x00006FA2 0x00010000 0x0000D32D) (\<lambda>bXYZ_tag.
       assemble hdr tag_count
         (tag_signatures desc_tag copyright_tag wtpt_tag rXYZ_tag gXYZ_tag bXYZ_tag
            red_curve_tag green_curve_tag blue_curve_tag)))))))))))"

definition create_icc_profile :: "error + bytes" where
  "create_icc_profile =
     create_icc_profile_with (str ''Red+22 Test Profile'') (str ''Public Domain'') 22 0 0"

section \<open>The entry point\<close>

text \<open>
  What \<open>main\<close> can see and change outside the program: the clock (the script imports
  \<open>datetime\<close> and never calls it) and the files of the working directory. An exception of
  \<open>create_icc_profile\<close> leaves \<open>main\<close> before \<open>open\<close>; otherwise the file is created or
  truncated and the profile written. Failures of the operating system in \<open>open\<close> and
  \<open>write\<close>, and the lines printed, are outside this model.
\<close>

record world =
  clock :: int
  files :: "string \<Rightarrow> bytes option"

definition output_file :: string where
  "output_file = ''red_plus_22.icc''"

definition main_with ::
  "pystr \<Rightarrow> pystr \<Rightarrow> int \<Rightarrow> int \<Rightarrow> int \<Rightarrow> world \<Rightarrow> (error + unit) \<times> world"
where
  "main_with desc_text copyright_text red_offset green_offset blue_offset w =
     (case create_icc_profile_with desc_text copyright_text red_offset green_offset
             blue_offset of
        Inl e \<Rightarrow> (Inl e, w)
      | Inr profile_data \<Rightarrow>
          (Inr (), w\<lparr>files := (files w)(output_file \<mapsto> profile_data)\<rparr>))"

definition main :: "world \<Rightarrow> (error + unit) \<times> world" where
  "main = main_with (str ''Red+22 Test Profile'') (str ''Public Domain'') 22 0 0"

section \<open>Reading a profile\<close>

text \<open>
  The fields of a profile that the properties below speak of, as a reader of the format
  finds them: the size at byte 0, the tag count at byte 128, entry \<open>i\<close> of the tag table
  (signature, offset, length) at byte \<open>132 + 12 * i\<close>, the data section after the table,
  and the payload an entry points to.
\<close>

definition size_field :: "bytes \<Rightarrow> int" where
  "size_field p = be_uint (take 4 p)"

definition tag_count_field :: "bytes \<Rightarrow> int" where
  "tag_count_field p = be_uint (take 4 (drop 128 p))"

definition tag_entry :: "bytes \<Rightarrow> nat \<Rightarrow> bytes \<times> int \<times> int" where
  "tag_entry p i =
     (let e = take 12 (drop (132 + 12 * i) p)
      in (take 4 e, be_uint (take 4 (drop 4 e)), be_uint (take 4 (drop 8 e))))"

definition data_start :: "bytes \<Rightarrow> int" where
  "data_start p = 132 + 12 * tag_count_field p"

definition tag_payload :: "bytes \<Rightarrow> nat \<Rightarrow> bytes" where
  "tag_payload p i =
     (case tag_entry p i of (sig, off, len) \<Rightarrow> take (nat len) (drop (nat off) p))"

section \<open>Evaluating the floating-point operations\<close>

lemma bit_length_0: "bit_length 0 = 0"
  by (simp add: bit_length.simps)

lemma bit_length_pos: "0 < n \<Longrightarrow> bit_length n = Suc (bit_length (n div 2))"
  by (subst bit_length.simps) simp

subsection \<open>The rounding\<close>

lemma bit_length_bounds:
  "0 < n \<Longrightarrow> 2 ^ (bit_length n - 1) \<le> n \<and> n < 2 ^ bit_length n"
proof (induction n rule: bit_length.induct)
  case (1 n)
  show ?case
  proof (cases "n div 2 = 0")
    case True
    with 1(2) have "n = 1" by presburger
    then show ?thesis by (simp add: bit_length_pos bit_length_0)
  next
    case False
    define k where "k = bit_length (n div 2)"
    from False 1(2) have "2 ^ (k - 1) \<le> n div 2 \<and> n div 2 < 2 ^ k"
      unfolding k_def by (intro 1(1)) simp_all
    moreover from False have "0 < k"
      unfolding k_def by (simp add: bit_length_pos)
    then have "(2::nat) ^ k = 2 * 2 ^ (k - 1)"
      by (cases k) simp_all
    moreover from 1(2) have "bit_length n = Suc k"
      unfolding k_def by (simp add: bit_length_pos)
    ultimately show ?thesis by simp presburger
  qed
qed

lemma ilog2_bounds:
  assumes "0 < x"
  shows "pow2 (ilog2 x) \<le> x \<and> x < pow2 (ilog2 x + 1)"
proof (cases "1 \<le> x")
  case True
  define n where "n = nat \<lfloor>x\<rfloor>"
  define k where "k = bit_length n"
  from True have floor_x: "1 \<le> \<lfloor>x\<rfloor>" by simp
  then have real_n: "real n = of_int \<lfloor>x\<rfloor>"
    unfolding n_def by simp
  from floor_x have "0 < n"
    unfolding n_def by simp
  moreover have "real n \<le> x" "x < real n + 1"
    unfolding real_n by linarith+
  ultimately have n: "0 < n" "real n \<le> x" "x < real n + 1" .
  from bit_length_bounds [OF n(1)] have b: "2 ^ (k - 1) \<le> n" "Suc n \<le> 2 ^ k"
    unfolding k_def by simp_all
  from n(1) have k: "0 < k"
    unfolding k_def by (simp add: bit_length_pos)
  have lower: "2 ^ (k - 1) \<le> real n"
    using of_nat_mono [OF b(1), where ?'a = real] by simp
  have upper: "real n + 1 \<le> 2 ^ k"
    using of_nat_mono [OF b(2), where ?'a = real] by simp
  from True have "ilog2 x = int k - 1"
    by (simp add: ilog2_def n_def k_def)
  with k have "pow2 (ilog2 x) = 2 ^ (k - 1)" and "pow2 (ilog2 x + 1) = 2 ^ k"
    by (simp_all add: pow2_def nat_diff_distrib')
  with lower upper n show ?thesis by linarith
next
  case False
  define y where "y = 1 / x"
  define m where "m = nat (\<lceil>y\<rceil> - 1)"
  define k where "k = bit_length m"
  from False assms have y: "1 < y" by (simp add: y_def)
  then have ceiling_y: "2 \<le> \<lceil>y\<rceil>" by linarith
  then have real_m: "real m = of_int \<lceil>y\<rceil> - 1"
    unfolding m_def by simp
  from ceiling_y have "0 < m"
    unfolding m_def by simp
  moreover have "real m < y" "y \<le> real m + 1"
    unfolding real_m by linarith+
  ultimately have m: "0 < m" "real m < y" "y \<le> real m + 1" .
  from bit_length_bounds [OF m(1)] have b: "2 ^ (k - 1) \<le> m" "Suc m \<le> 2 ^ k"
    unfolding k_def by simp_all
  from m(1) have k: "0 < k"
    unfolding k_def by (simp add: bit_length_pos)
  have "2 ^ (k - 1) \<le> real m"
    using of_nat_mono [OF b(1), where ?'a = real] by simp
  with m(2) have upper: "2 ^ (k - 1) < y" by linarith
  have "real m + 1 \<le> 2 ^ k"
    using of_nat_mono [OF b(2), where ?'a = real] by simp
  with m(3) have lower: "y \<le> 2 ^ k" by linarith
  from False have log: "ilog2 x = - int k"
    by (simp add: ilog2_def y_def m_def k_def)
  from lower assms have "1 / 2 ^ k \<le> x"
    unfolding y_def by (simp add: field_simps)
  moreover from upper assms have "x < 1 / 2 ^ (k - 1)"
    unfolding y_def by (simp add: field_simps)
  moreover from k have "pow2 (- int k) = 1 / 2 ^ k" "pow2 (- int k + 1) = 1 / 2 ^ (k - 1)"
    by (simp_all add: pow2_def nat_diff_distrib')
  ultimately show ?thesis by (simp add: log)
qed

lemma pow2_power_int: "pow2 k = 2 powi k"
  by (simp add: pow2_def power_int_def power_one_over)

lemma pow2_pos: "0 < pow2 k"
  by (simp add: pow2_power_int)

lemma pow2_add: "pow2 (j + k) = pow2 j * pow2 k"
  by (simp add: pow2_power_int power_int_add)

lemma round_half_even_of_int: "round_half_even (of_int n) = n"
  by (simp add: round_half_even_def)

lemma round_half_even_nearest: "\<bar>of_int (round_half_even x) - x\<bar> \<le> 1 / 2"
  unfolding round_half_even_def Let_def by (simp; linarith)

lemma round_half_even_tie:
  assumes "x - of_int \<lfloor>x\<rfloor> = 1 / 2"
  shows "even (round_half_even x)"
  using assms by (auto simp: round_half_even_def Let_def)

lemma round_half_even_mono:
  assumes "x \<le> y"
  shows "round_half_even x \<le> round_half_even y"
proof -
  from assms have floors: "\<lfloor>x\<rfloor> \<le> \<lfloor>y\<rfloor>" by (rule floor_mono)
  show ?thesis
  proof (cases "\<lfloor>x\<rfloor> = \<lfloor>y\<rfloor>")
    case True
    with assms show ?thesis
      by (auto simp: round_half_even_def Let_def)
  next
    case False
    with floors have "\<lfloor>x\<rfloor> + 1 \<le> \<lfloor>y\<rfloor>" by simp
    moreover have "round_half_even x \<le> \<lfloor>x\<rfloor> + 1"
      by (simp add: round_half_even_def Let_def)
    moreover have "\<lfloor>y\<rfloor> \<le> round_half_even y"
      by (simp add: round_half_even_def Let_def)
    ultimately show ?thesis by linarith
  qed
qed

text \<open>
  The rounding is the one of the standard, for a positive number in the normal range:
  the result has a significand of 53 bits at the exponent of \<open>x\<close> (or is the next power
  of two), and it is within half a unit in the last place of \<open>x\<close>.
\<close>

lemma round_double_normal:
  assumes "0 < x" and "- 1022 \<le> ilog2 x"
  shows "\<exists>m. round_double x = of_int m * pow2 (ilog2 x - 52) \<and> 2 ^ 52 \<le> m \<and> m \<le> 2 ^ 53"
    and "\<bar>round_double x - x\<bar> \<le> pow2 (ilog2 x - 53)"
proof -
  define u where "u = pow2 (ilog2 x - 52)"
  define m where "m = round_half_even (x / u)"
  have u: "0 < u" by (simp add: u_def pow2_pos)
  from assms have rd: "round_double x = of_int m * u"
    by (simp add: round_double_def Let_def m_def u_def max_def)
  have "pow2 (ilog2 x) = pow2 (ilog2 x - 52) * pow2 52"
    using pow2_add [of "ilog2 x - 52" 52] by simp
  then have low: "pow2 (ilog2 x) = u * 2 ^ 52"
    by (simp add: u_def pow2_def)
  have "pow2 (ilog2 x + 1) = pow2 (ilog2 x - 52) * pow2 53"
    using pow2_add [of "ilog2 x - 52" 53] by (simp add: add.commute)
  then have high: "pow2 (ilog2 x + 1) = u * 2 ^ 53"
    by (simp add: u_def pow2_def)
  from ilog2_bounds [OF assms(1)] u have "2 ^ 52 \<le> x / u" and "x / u \<le> 2 ^ 53"
    unfolding low high by (simp_all add: field_simps)
  then have "round_half_even (of_int (2 ^ 52)) \<le> m" and "m \<le> round_half_even (of_int (2 ^ 53))"
    unfolding m_def by (simp_all add: round_half_even_mono)
  then have "2 ^ 52 \<le> m" and "m \<le> 2 ^ 53"
    unfolding round_half_even_of_int by simp_all
  with rd show "\<exists>m. round_double x = of_int m * pow2 (ilog2 x - 52) \<and> 2 ^ 52 \<le> m \<and> m \<le> 2 ^ 53"
    unfolding u_def by blast
  have "\<bar>of_int m - x / u\<bar> \<le> 1 / 2"
    unfolding m_def by (rule round_half_even_nearest)
  with u have scaled: "\<bar>of_int m - x / u\<bar> * u \<le> 1 / 2 * u"
    by (simp add: mult_right_mono)
  from u have "of_int m * u - x = (of_int m - x / u) * u"
    by (simp add: left_diff_distrib)
  then have error: "\<bar>of_int m * u - x\<bar> = \<bar>of_int m - x / u\<bar> * u"
    using u by (simp add: abs_mult)
  have "pow2 (ilog2 x - 52) = pow2 (ilog2 x - 53) * pow2 1"
    using pow2_add [of "ilog2 x - 53" 1] by simp
  then have half: "1 / 2 * u = pow2 (ilog2 x - 53)"
    by (simp add: u_def pow2_def)
  from scaled error half show "\<bar>round_double x - x\<bar> \<le> pow2 (ilog2 x - 53)"
    unfolding rd by linarith
qed

subsection \<open>The samples\<close>

lemmas float_eval =
  value_16bit_def float_mul_def float_truediv_def round_double_def ilog2_def pow2_def
  round_half_even_def int_of_float_def bit_length_0 bit_length_pos Let_def

text \<open>
  The 256 values the clamp can produce, evaluated one by one: the two roundings never
  leave \<open>257 * v\<close>.
\<close>

lemma value_16bit_table_0: "list_all (\<lambda>v. value_16bit v = 257 * v) [0..31]"
  apply (simp add: upto_rec1)
  apply (simp add: float_eval)
  done

lemma value_16bit_table_1: "list_all (\<lambda>v. value_16bit v = 257 * v) [32..63]"
  apply (simp add: upto_rec1)
  apply (simp add: float_eval)
  done

lemma value_16bit_table_2: "list_all (\<lambda>v. value_16bit v = 257 * v) [64..95]"
  apply (simp add: upto_rec1)
  apply (simp add: float_eval)
  done

lemma value_16bit_table_3: "list_all (\<lambda>v. value_16bit v = 257 * v) [96..127]"
  apply (simp add: upto_rec1)
  apply (simp add: float_eval)
  done

lemma value_16bit_table_4: "list_all (\<lambda>v. value_16bit v = 257 * v) [128..159]"
  apply (simp add: upto_rec1)
  apply (simp add: float_eval)
  done

lemma value_16bit_table_5: "list_all (\<lambda>v. value_16bit v = 257 * v) [160..191]"
  apply (simp add: upto_rec1)
  apply (simp add: float_eval)
  done

lemma value_16bit_table_6: "list_all (\<lambda>v. value_16bit v = 257 * v) [192..223]"
  apply (simp add: upto_rec1)
  apply (simp add: float_eval)
  done

lemma value_16bit_table_7: "list_all (\<lambda>v. value_16bit v = 257 * v) [224..255]"
  apply (simp add: upto_rec1)
  apply (simp add: float_eval)
  done

lemma value_16bit_eq:
  assumes "0 \<le> v" and "v \<le> 255"
  shows "value_16bit v = 257 * v"
proof -
  from assms have "v \<in> {0..31} \<or> v \<in> {32..63} \<or> v \<in> {64..95} \<or> v \<in> {96..127}
      \<or> v \<in> {128..159} \<or> v \<in> {160..191} \<or> v \<in> {192..223} \<or> v \<in> {224..255}"
    by (simp only: atLeastAtMost_iff) arith
  then have "v \<in> set [0..31] \<or> v \<in> set [32..63] \<or> v \<in> set [64..95] \<or> v \<in> set [96..127]
      \<or> v \<in> set [128..159] \<or> v \<in> set [160..191] \<or> v \<in> set [192..223]
      \<or> v \<in> set [224..255]"
    by (simp only: set_upto)
  with value_16bit_table_0 value_16bit_table_1 value_16bit_table_2 value_16bit_table_3
    value_16bit_table_4 value_16bit_table_5 value_16bit_table_6 value_16bit_table_7
  show ?thesis
    unfolding list_all_iff by blast
qed

section \<open>Properties of the tone curve\<close>

lemma create_curve_data_eq:
  "create_curve_data offset = map (\<lambda>i. 257 * min 255 (max 0 (i + offset))) [0..255]"
  unfolding create_curve_data_def
  by (rule map_cong) (simp_all only: set_upto atLeastAtMost_iff, simp add: value_16bit_eq)

lemma length_create_curve_data: "length (create_curve_data offset) = 256"
  by (simp add: create_curve_data_def)

lemma nth_create_curve_data:
  assumes "0 \<le> i" and "i \<le> 255"
  shows "create_curve_data offset ! nat i = 257 * min 255 (max 0 (i + offset))"
proof -
  from assms have "nat i < length [0..255::int]" by simp
  moreover from assms have "[0..255] ! nat i = i" by simp
  ultimately show ?thesis by (simp add: create_curve_data_eq del: length_upto)
qed

lemma spec_sample_eq: "spec_sample offset i = 257 * min 255 (max 0 (i + offset))"
proof -
  have "real_of_int v / 255 * 65535 = real_of_int (257 * v)" for v by simp
  then show ?thesis by (simp only: spec_sample_def round_of_int)
qed

text \<open>
  Claim C1. For every offset in [-255, 255] and every index i in [0, 255], the i-th
  sample of the curve built with that offset is round(clamp(i + offset, 0, 255) / 255 *
  65535); the curve of offset 0 has sample 0 equal to 0 and sample 255 equal to 65535.
\<close>

theorem tone_curve_sample:
  "(- 255 \<le> offset \<and> offset \<le> 255 \<and> 0 \<le> i \<and> i \<le> 255 \<longrightarrow>
      create_curve_data offset ! nat i = spec_sample offset i)
   \<and> create_curve_data 0 ! 0 = 0 \<and> create_curve_data 0 ! 255 = 65535"
proof -
  have "create_curve_data 0 ! nat 0 = 0" by (subst nth_create_curve_data) simp_all
  moreover have "create_curve_data 0 ! nat 255 = 65535"
    by (subst nth_create_curve_data) simp_all
  ultimately show ?thesis
    by (simp add: nth_create_curve_data spec_sample_eq)
qed

theorem tone_curve_sample_witness:
  "create_curve_data 22 ! nat 240 = spec_sample 22 240 \<and> spec_sample 22 240 = 65535
   \<and> create_curve_data (- 255) ! nat 255 = spec_sample (- 255) 255
   \<and> spec_sample (- 255) 255 = 0"
  using tone_curve_sample [of 22 240] tone_curve_sample [of "- 255" 255]
  by (simp add: spec_sample_eq)

text \<open>
  Claim C8. For every offset the curve has exactly 256 samples, and they are
  non-decreasing in the index.
\<close>

theorem tone_curve_length_sorted:
  "length (create_curve_data offset) = 256 \<and> sorted (create_curve_data offset)"
proof -
  have "sorted_wrt (\<lambda>x y. 257 * min 255 (max 0 (x + offset))
          \<le> 257 * min 255 (max 0 (y + offset))) [0..255::int]"
    by (rule sorted_wrt_mono_rel [of _ "(\<le>)"]) simp_all
  then have "sorted (create_curve_data offset)"
    by (simp only: create_curve_data_eq sorted_map)
  then show ?thesis by (simp add: length_create_curve_data)
qed

section \<open>Properties of the padding\<close>

lemma length_pad_to_4bytes_mod: "length (pad_to_4bytes data) mod 4 = 0"
  unfolding pad_to_4bytes_def Let_def by (simp; presburger)

text \<open>
  Claim C7. Padding is idempotent, and padding data whose length is a multiple of 4
  changes nothing.
\<close>

theorem pad_to_4bytes_idem:
  "pad_to_4bytes (pad_to_4bytes x) = pad_to_4bytes x
   \<and> (length x mod 4 = 0 \<longrightarrow> pad_to_4bytes x = x)"
proof -
  have aligned: "pad_to_4bytes y = y" if "length y mod 4 = 0" for y
    using that by (simp add: pad_to_4bytes_def)
  have "pad_to_4bytes (pad_to_4bytes x) = pad_to_4bytes x"
    by (rule aligned) (rule length_pad_to_4bytes_mod)
  with aligned [of x] show ?thesis by simp
qed

theorem pad_to_4bytes_idem_witness:
  "length [1, 2, 3, 4 :: byte] mod 4 = 0 \<and> pad_to_4bytes [1, 2, 3, 4] = [1, 2, 3, 4]
   \<and> pad_to_4bytes [7, 8, 9] = [7, 8, 9, 0]
   \<and> pad_to_4bytes (pad_to_4bytes [7, 8, 9]) = [7, 8, 9, 0]"
  using pad_to_4bytes_idem [of "[1, 2, 3, 4]"] pad_to_4bytes_idem [of "[7, 8, 9]"]
  by (simp add: pad_to_4bytes_def)

section \<open>Bytes and packing\<close>

lemma bindE_Inr_iff: "bindE m f = Inr y \<longleftrightarrow> (\<exists>x. m = Inr x \<and> f x = Inr y)"
  by (cases m) (simp_all add: bindE_def)

lemma bindE_simps [simp]: "bindE (Inr x) f = f x" "bindE (Inl e) f = Inl e"
  by (simp_all add: bindE_def)

lemma length_u32_bytes [simp]: "length (u32_bytes n) = 4"
  by (simp add: u32_bytes_def)

lemma length_u16_bytes [simp]: "length (u16_bytes n) = 2"
  by (simp add: u16_bytes_def)

lemma length_ascii [simp]: "length (ascii s) = length s"
  by (simp add: ascii_def)

lemma pack_I_Inr_iff: "pack_I n = Inr bs \<longleftrightarrow> 0 \<le> n \<and> n < 2 ^ 32 \<and> bs = u32_bytes n"
  by (auto simp: pack_I_def)

lemma pack_H_Inr_iff: "pack_H n = Inr bs \<longleftrightarrow> 0 \<le> n \<and> n < 2 ^ 16 \<and> bs = u16_bytes n"
  by (auto simp: pack_H_def)

lemma be_uint_u32_bytes:
  assumes "0 \<le> n" and "n < 2 ^ 32"
  shows "be_uint (u32_bytes n) = n"
proof -
  define a where "a = n div 256"
  define b where "b = a div 256"
  define c where "c = b div 256"
  have d2: "n div 65536 = b"
    unfolding a_def b_def by (simp add: zdiv_zmult2_eq [symmetric])
  have d3: "n div 16777216 = c"
    unfolding a_def b_def c_def by (simp add: zdiv_zmult2_eq [symmetric])
  from assms have "0 \<le> c" and "c < 256"
    unfolding d3 [symmetric] by simp_all
  then have c: "c mod 256 = c" by simp
  have "be_uint (u32_bytes n) =
      ((n div 16777216 mod 256 * 256 + n div 65536 mod 256) * 256 + n div 256 mod 256) * 256
        + n mod 256"
    by (simp add: be_uint_def u32_bytes_def uint_word_of_int_eq take_bit_eq_mod)
  also have "\<dots> = ((c * 256 + b mod 256) * 256 + a mod 256) * 256 + n mod 256"
    by (simp only: d2 d3 c a_def [symmetric])
  also have "c * 256 + b mod 256 = b"
    unfolding c_def by simp
  also have "b * 256 + a mod 256 = a"
    unfolding b_def by simp
  also have "a * 256 + n mod 256 = n"
    unfolding a_def by simp
  finally show ?thesis .
qed

section \<open>The tags\<close>

lemma pack_H_join_Inr:
  "list_all (\<lambda>v. 0 \<le> v \<and> v < 2 ^ 16) vs \<Longrightarrow> pack_H_join vs = Inr (concat (map u16_bytes vs))"
  by (induction vs) (simp_all add: pack_H_def)

lemma length_concat_u16_bytes: "length (concat (map u16_bytes vs)) = 2 * length vs"
  by (induction vs) simp_all

lemma clamp_scaled_range:
  "0 \<le> 257 * min 255 (max 0 (x :: int)) \<and> 257 * min 255 (max 0 x) < 65536"
  by arith

lemma create_curve_data_range:
  "list_all (\<lambda>v. 0 \<le> v \<and> v < 2 ^ 16) (create_curve_data offset)"
  unfolding create_curve_data_eq list_all_iff using clamp_scaled_range by auto

lemma create_curve_tag_curve:
  "create_curve_tag (create_curve_data offset) =
     Inr (ascii ''curv'' @ [0, 0, 0, 0] @ u32_bytes 256 @
          concat (map u16_bytes (create_curve_data offset)))"
  by (simp add: create_curve_tag_def length_create_curve_data pack_I_def
      pack_H_join_Inr [OF create_curve_data_range])

lemma length_curve_tag:
  "create_curve_tag (create_curve_data offset) = Inr tag \<Longrightarrow> length tag = 524"
  by (auto simp: create_curve_tag_curve length_concat_u16_bytes length_create_curve_data)

text \<open>
  Claim C9. For every integer offset, every sample of the curve lies in [0, 65535], so
  that packing the samples as unsigned 16-bit values in the curve tag does not fail.
\<close>

theorem curve_samples_pack:
  "(\<forall>s \<in> set (create_curve_data offset). 0 \<le> s \<and> s \<le> 65535)
   \<and> (\<exists>tag. create_curve_tag (create_curve_data offset) = Inr tag \<and> length tag = 524)"
proof -
  have "\<forall>s \<in> set (create_curve_data offset). 0 \<le> s \<and> s \<le> 65535"
    using create_curve_data_range [of offset] unfolding list_all_iff by auto
  moreover have "\<exists>tag. create_curve_tag (create_curve_data offset) = Inr tag \<and> length tag = 524"
    using length_curve_tag [of offset] by (simp add: create_curve_tag_curve)
  ultimately show ?thesis by blast
qed

theorem curve_samples_pack_witness:
  "create_curve_data 1000 ! nat 0 \<in> set (create_curve_data 1000)
   \<and> create_curve_data 1000 ! nat 0 = 65535
   \<and> create_curve_data (- 1000) ! nat 255 \<in> set (create_curve_data (- 1000))
   \<and> create_curve_data (- 1000) ! nat 255 = 0
   \<and> (\<exists>tag. create_curve_tag (create_curve_data 1000) = Inr tag \<and> length tag = 524)"
proof -
  have "create_curve_data 1000 ! nat 0 = 65535"
    by (subst nth_create_curve_data) simp_all
  moreover have "create_curve_data (- 1000) ! nat 255 = 0"
    by (subst nth_create_curve_data) simp_all
  moreover have "create_curve_data 1000 ! nat 0 \<in> set (create_curve_data 1000)"
    by (rule nth_mem) (simp add: length_create_curve_data)
  moreover have "create_curve_data (- 1000) ! nat 255 \<in> set (create_curve_data (- 1000))"
    by (rule nth_mem) (simp add: length_create_curve_data)
  ultimately show ?thesis
    using curve_samples_pack [of 1000] by blast
qed

lemma encode_ascii_Inr_iff:
  "encode_ascii t = Inr bs \<longleftrightarrow> list_all (\<lambda>c. c < 128) t \<and> bs = map of_nat t"
  by (auto simp: encode_ascii_def Let_def)

lemma create_text_desc_tag_Inr_iff:
  "create_text_desc_tag t = Inr bs \<longleftrightarrow>
     int (length t) + 1 < 2 ^ 32 \<and> list_all (\<lambda>c. c < 128) t \<and>
     bs = ascii ''desc'' @ [0, 0, 0, 0] @ u32_bytes (int (length t) + 1) @ map of_nat t @ [0] @
          u32_bytes 0 @ u32_bytes 0 @ u16_bytes 0 @ [0]"
  by (auto simp: create_text_desc_tag_def bindE_Inr_iff pack_I_Inr_iff pack_H_Inr_iff
      encode_ascii_Inr_iff)

lemma length_text_desc_tag:
  "create_text_desc_tag t = Inr bs \<Longrightarrow> length bs = 24 + length t"
  by (auto simp: create_text_desc_tag_Inr_iff)

lemma create_xyz_tag_Inr:
  assumes "0 \<le> x" "x < 2 ^ 32" "0 \<le> y" "y < 2 ^ 32" "0 \<le> z" "z < 2 ^ 32"
  shows "create_xyz_tag x y z =
     Inr (ascii ''XYZ '' @ [0, 0, 0, 0] @ u32_bytes x @ u32_bytes y @ u32_bytes z)"
  using assms by (simp add: create_xyz_tag_def pack_III_def pack_I_def)

section \<open>The assembly\<close>

lemma length_pad_to_4bytes_ge: "length data \<le> length (pad_to_4bytes data)"
  unfolding pad_to_4bytes_def Let_def by (simp; presburger)

lemma length_pad_to_4bytes_le: "length (pad_to_4bytes data) \<le> length data + 3"
  unfolding pad_to_4bytes_def Let_def by (simp; presburger)

lemma pad_to_4bytes_aligned: "length data mod 4 = 0 \<Longrightarrow> pad_to_4bytes data = data"
  by (simp add: pad_to_4bytes_def)

lemma tag_loop_Inr:
  assumes "tag_loop tags (es, sec, off) = Inr (es', sec', off')"
  shows "es' = es @ table_entries off tags
     \<and> sec' = sec @ concat (map (\<lambda>t. pad_to_4bytes (snd t)) tags)
     \<and> off' = off + int (length (concat (map (\<lambda>t. pad_to_4bytes (snd t)) tags)))"
  using assms
proof (induction tags arbitrary: es sec off)
  case Nil
  then show ?case by simp
next
  case (Cons t tags)
  obtain sig tag_data where t: "t = (sig, tag_data)" by (cases t)
  from Cons.prems have ok: "0 \<le> off" "off < 2 ^ 32"
    "tag_loop tags (es @ [sig @ u32_bytes off @ u32_bytes (int (length (pad_to_4bytes tag_data)))],
       sec @ pad_to_4bytes tag_data, off + int (length (pad_to_4bytes tag_data)))
     = Inr (es', sec', off')"
    by (auto simp: t Let_def bindE_Inr_iff pack_I_Inr_iff)
  from Cons.IH [OF ok(3)] show ?case
    by (simp add: t)
qed

lemma length_table_entries: "length (table_entries off tags) = length tags"
  by (induction tags arbitrary: off) auto

lemma assemble_Inr:
  assumes "assemble hdr cnt tags = Inr p"
  defines "profile \<equiv> hdr @ u32_bytes cnt @ concat (table_entries (132 + cnt * 12) tags) @
     concat (map (\<lambda>t. pad_to_4bytes (snd t)) tags)"
  shows "p = u32_bytes (int (length profile)) @ drop 4 profile"
    and "int (length profile) < 2 ^ 32" and "0 \<le> cnt" and "cnt < 2 ^ 32"
proof -
  from assms(1) obtain es sec off' count_field size_field' where
    loop: "tag_loop tags ([], [], 128 + 4 + cnt * 12) = Inr (es, sec, off')"
    and cnt: "pack_I cnt = Inr count_field"
    and size: "pack_I (int (length (hdr @ (count_field @ concat es) @ sec))) = Inr size_field'"
    and p: "p = size_field' @ drop 4 (hdr @ (count_field @ concat es) @ sec)"
    by (auto simp: assemble_def Let_def bindE_Inr_iff
        simp del: length_append drop_append append_assoc)
  from tag_loop_Inr [OF loop] have es: "es = table_entries (132 + cnt * 12) tags"
    and sec: "sec = concat (map (\<lambda>t. pad_to_4bytes (snd t)) tags)"
    by simp_all
  from cnt have count_field: "count_field = u32_bytes cnt" and "0 \<le> cnt" "cnt < 2 ^ 32"
    by (simp_all add: pack_I_Inr_iff)
  then show "0 \<le> cnt" "cnt < 2 ^ 32" by simp_all
  have profile: "hdr @ (count_field @ concat es) @ sec = profile"
    by (simp add: profile_def es sec count_field)
  from size show "int (length profile) < 2 ^ 32"
    unfolding profile by (simp add: pack_I_Inr_iff)
  from size p show "p = u32_bytes (int (length profile)) @ drop 4 profile"
    unfolding profile by (simp add: pack_I_Inr_iff)
qed

lemma assemble_size_field:
  assumes "assemble hdr cnt tags = Inr p"
  shows "size_field p = int (length p)"
proof -
  define profile where "profile = hdr @ u32_bytes cnt @
     concat (table_entries (132 + cnt * 12) tags) @
     concat (map (\<lambda>t. pad_to_4bytes (snd t)) tags)"
  from assemble_Inr [OF assms] have p: "p = u32_bytes (int (length profile)) @ drop 4 profile"
    and small: "int (length profile) < 2 ^ 32"
    unfolding profile_def by simp_all
  have "4 \<le> length profile" by (simp add: profile_def)
  with p have "length p = length profile" by simp
  moreover from p have "take 4 p = u32_bytes (int (length profile))" by simp
  ultimately show ?thesis
    using small by (simp add: size_field_def be_uint_u32_bytes)
qed

section \<open>The layout of an assembled profile\<close>

lemma length_concat_pad_take:
  "length (concat (map (\<lambda>t. pad_to_4bytes (snd t)) (take i tags)))
     \<le> length (concat (map (\<lambda>t. pad_to_4bytes (snd t)) tags))"
proof -
  have "length (concat (map (\<lambda>t. pad_to_4bytes (snd t)) (take i tags @ drop i tags)))
      = length (concat (map (\<lambda>t. pad_to_4bytes (snd t)) (take i tags)))
        + length (concat (map (\<lambda>t. pad_to_4bytes (snd t)) (drop i tags)))"
    by (simp only: map_append concat_append length_append)
  then show ?thesis by simp
qed

lemma concat_pad_split:
  assumes "i < length tags"
  shows "concat (map (\<lambda>t. pad_to_4bytes (snd t)) tags) =
     concat (map (\<lambda>t. pad_to_4bytes (snd t)) (take i tags)) @ pad_to_4bytes (snd (tags ! i)) @
     concat (map (\<lambda>t. pad_to_4bytes (snd t)) (drop (Suc i) tags))"
proof -
  from assms have "tags = take i tags @ tags ! i # drop (Suc i) tags"
    by (rule id_take_nth_drop)
  then have "concat (map (\<lambda>t. pad_to_4bytes (snd t)) tags) =
      concat (map (\<lambda>t. pad_to_4bytes (snd t)) (take i tags @ tags ! i # drop (Suc i) tags))"
    by simp
  then show ?thesis by simp
qed

lemma nth_table_entries:
  assumes "i < length tags"
  shows "table_entries off tags ! i =
     fst (tags ! i) @
     u32_bytes (off + int (length (concat (map (\<lambda>t. pad_to_4bytes (snd t)) (take i tags))))) @
     u32_bytes (int (length (pad_to_4bytes (snd (tags ! i)))))"
  using assms
proof (induction tags arbitrary: off i)
  case Nil
  then show ?case by simp
next
  case (Cons t tags)
  obtain sig tag_data where t: "t = (sig, tag_data)" by (cases t)
  show ?case
  proof (cases i)
    case 0
    then show ?thesis by (simp add: t)
  next
    case (Suc j)
    with Cons.prems have "j < length tags" by simp
    from Cons.IH [OF this] show ?thesis
      by (simp add: t Suc add.assoc)
  qed
qed

lemma length_concat_table_entries:
  assumes "\<forall>t \<in> set tags. length (fst t) = 4"
  shows "length (concat (table_entries off tags)) = 12 * length tags"
  using assms by (induction tags arbitrary: off) auto

lemma take_drop_concat_entries:
  assumes "\<forall>e \<in> set es. length e = 12" and "i < length es"
  shows "take 12 (drop (12 * i) (concat es @ rest)) = es ! i"
  using assms
proof (induction es arbitrary: i)
  case Nil
  then show ?case by simp
next
  case (Cons e es)
  show ?case
  proof (cases i)
    case 0
    with Cons.prems show ?thesis by simp
  next
    case (Suc j)
    with Cons.prems have "j < length es" and "\<forall>e \<in> set es. length e = 12" and "length e = 12"
      by simp_all
    with Cons.IH [of j] show ?thesis by (simp add: Suc)
  qed
qed

lemma length_table_entry:
  assumes "\<forall>t \<in> set tags. length (fst t) = 4"
  shows "\<forall>e \<in> set (table_entries off tags). length e = 12"
  using assms by (induction tags arbitrary: off) auto
lemma assemble_layout:
  assumes ok: "assemble hdr cnt tags = Inr p" and hdr: "length hdr = 128"
    and sigs: "\<forall>t \<in> set tags. length (fst t) = 4"
  shows "p = u32_bytes (int (length p)) @ drop 4 hdr @ u32_bytes cnt @
           concat (table_entries (132 + cnt * 12) tags) @
           concat (map (\<lambda>t. pad_to_4bytes (snd t)) tags)"
    and "int (length p) < 2 ^ 32"
    and "length p = 132 + 12 * length tags +
           length (concat (map (\<lambda>t. pad_to_4bytes (snd t)) tags))"
proof -
  define profile where "profile = hdr @ u32_bytes cnt @
     concat (table_entries (132 + cnt * 12) tags) @
     concat (map (\<lambda>t. pad_to_4bytes (snd t)) tags)"
  from assemble_Inr [OF ok] have p: "p = u32_bytes (int (length profile)) @ drop 4 profile"
    and small: "int (length profile) < 2 ^ 32"
    unfolding profile_def by simp_all
  have len: "length profile = 132 + 12 * length tags +
      length (concat (map (\<lambda>t. pad_to_4bytes (snd t)) tags))"
    by (simp add: profile_def hdr length_concat_table_entries [OF sigs])
  with p have same: "length p = length profile" by simp
  with len show "length p = 132 + 12 * length tags +
      length (concat (map (\<lambda>t. pad_to_4bytes (snd t)) tags))"
    by simp
  from small same show "int (length p) < 2 ^ 32" by simp
  have "drop 4 profile = drop 4 hdr @ u32_bytes cnt @
      concat (table_entries (132 + cnt * 12) tags) @
      concat (map (\<lambda>t. pad_to_4bytes (snd t)) tags)"
    by (simp add: profile_def hdr)
  with p same show "p = u32_bytes (int (length p)) @ drop 4 hdr @ u32_bytes cnt @
      concat (table_entries (132 + cnt * 12) tags) @
      concat (map (\<lambda>t. pad_to_4bytes (snd t)) tags)"
    by simp
qed

lemma tag_count_field_assemble:
  assumes ok: "assemble hdr cnt tags = Inr p" and hdr: "length hdr = 128"
    and sigs: "\<forall>t \<in> set tags. length (fst t) = 4"
  shows "tag_count_field p = cnt"
proof -
  define front where "front = u32_bytes (int (length p)) @ drop 4 hdr"
  define tail_part where "tail_part = concat (table_entries (132 + cnt * 12) tags) @
     concat (map (\<lambda>t. pad_to_4bytes (snd t)) tags)"
  from assemble_layout(1) [OF ok hdr sigs] have p: "p = front @ u32_bytes cnt @ tail_part"
    by (simp add: front_def tail_part_def)
  have "length front = 128" by (simp add: front_def hdr)
  then have "take 4 (drop 128 p) = u32_bytes cnt"
    by (subst p) simp
  with assemble_Inr(3,4) [OF ok] show ?thesis
    by (simp add: tag_count_field_def be_uint_u32_bytes)
qed

lemma tag_entry_assemble:
  assumes ok: "assemble hdr cnt tags = Inr p" and hdr: "length hdr = 128"
    and sigs: "\<forall>t \<in> set tags. length (fst t) = 4" and cnt: "cnt = int (length tags)"
    and i: "i < length tags"
  shows "tag_entry p i =
     (fst (tags ! i),
      132 + cnt * 12 + int (length (concat (map (\<lambda>t. pad_to_4bytes (snd t)) (take i tags)))),
      int (length (pad_to_4bytes (snd (tags ! i)))))"
proof -
  define front where "front = u32_bytes (int (length p)) @ drop 4 hdr @ u32_bytes cnt"
  define es where "es = table_entries (132 + cnt * 12) tags"
  define data where "data = concat (map (\<lambda>t. pad_to_4bytes (snd t)) tags)"
  define before where
    "before = length (concat (map (\<lambda>t. pad_to_4bytes (snd t)) (take i tags)))"
  define len where "len = length (pad_to_4bytes (snd (tags ! i)))"
  from assemble_layout(1) [OF ok hdr sigs] have p: "p = front @ concat es @ data"
    by (simp add: front_def es_def data_def)
  have front: "length front = 132" by (simp add: front_def hdr)
  have "drop (132 + 12 * i) p = drop (12 * i) (concat es @ data)"
    by (subst p) (simp add: front)
  moreover have "take 12 (drop (12 * i) (concat es @ data)) = es ! i"
    by (rule take_drop_concat_entries)
      (simp_all add: es_def length_table_entry [OF sigs] length_table_entries i)
  ultimately have entry: "take 12 (drop (132 + 12 * i) p) =
      fst (tags ! i) @ u32_bytes (132 + cnt * 12 + int before) @ u32_bytes (int len)"
    by (simp add: es_def nth_table_entries [OF i] before_def len_def)
  from sigs i have sig: "length (fst (tags ! i)) = 4" by simp
  have "before + len \<le> length data"
    unfolding data_def before_def len_def by (subst concat_pad_split [OF i]) simp
  moreover from assemble_layout(2,3) [OF ok hdr sigs]
  have "132 + 12 * int (length tags) + int (length data) < 2 ^ 32"
    by (simp add: data_def)
  ultimately have "132 + cnt * 12 + int before < 2 ^ 32" and "int len < 2 ^ 32"
    by (simp_all add: cnt)
  moreover have "0 \<le> 132 + cnt * 12 + int before" by (simp add: cnt)
  ultimately show ?thesis
    unfolding tag_entry_def Let_def entry before_def [symmetric] len_def [symmetric]
    by (simp add: sig be_uint_u32_bytes)
qed

lemma tag_payload_assemble:
  assumes ok: "assemble hdr cnt tags = Inr p" and hdr: "length hdr = 128"
    and sigs: "\<forall>t \<in> set tags. length (fst t) = 4" and cnt: "cnt = int (length tags)"
    and i: "i < length tags"
  shows "tag_payload p i = pad_to_4bytes (snd (tags ! i))"
proof -
  define front where "front = u32_bytes (int (length p)) @ drop 4 hdr @ u32_bytes cnt @
     concat (table_entries (132 + cnt * 12) tags)"
  define before where "before = concat (map (\<lambda>t. pad_to_4bytes (snd t)) (take i tags))"
  define after where "after = concat (map (\<lambda>t. pad_to_4bytes (snd t)) (drop (Suc i) tags))"
  from assemble_layout(1) [OF ok hdr sigs]
  have p: "p = front @ before @ pad_to_4bytes (snd (tags ! i)) @ after"
    by (simp add: front_def before_def after_def concat_pad_split [OF i, symmetric])
  have front: "length front = 132 + 12 * length tags"
    by (simp add: front_def hdr length_concat_table_entries [OF sigs])
  have "nat (132 + cnt * 12 + int (length before)) = length front + length before"
    by (simp add: front cnt)
  then have "take (length (pad_to_4bytes (snd (tags ! i))))
      (drop (nat (132 + cnt * 12 + int (length before))) p) = pad_to_4bytes (snd (tags ! i))"
    by (subst p) simp
  then show ?thesis
    unfolding tag_payload_def tag_entry_assemble [OF ok hdr sigs cnt i]
    by (simp add: before_def)
qed

lemma tag_entry_next:
  assumes ok: "assemble hdr cnt tags = Inr p" and hdr: "length hdr = 128"
    and sigs: "\<forall>t \<in> set tags. length (fst t) = 4" and cnt: "cnt = int (length tags)"
    and i: "Suc i < length tags"
    and this_entry: "tag_entry p i = (sig, off, len)"
    and next_entry: "tag_entry p (Suc i) = (sig', off', len')"
  shows "off' = off + len"
proof -
  from i have i': "i < length tags" by simp
  then have "take (Suc i) tags = take i tags @ [tags ! i]"
    by (rule take_Suc_conv_app_nth)
  with this_entry next_entry show ?thesis
    unfolding tag_entry_assemble [OF ok hdr sigs cnt i]
      tag_entry_assemble [OF ok hdr sigs cnt i']
    by simp
qed

section \<open>The profile of the script\<close>

lemma length_header: "length illuminant = 12 \<Longrightarrow> length (header illuminant) = 128"
  by (simp add: header_def creation_date_def)

lemma creation_date_header: "take 12 (drop 24 (header illuminant)) = creation_date"
  by (simp add: header_def creation_date_def)

lemma length_tag_signatures [simp]:
  "length (tag_signatures D C W RX GX BX R G B) = 9"
  by (simp add: tag_signatures_def)

lemma signatures_tag_signatures:
  "\<forall>t \<in> set (tag_signatures D C W RX GX BX R G B). length (fst t) = 4"
  by (simp add: tag_signatures_def)

lemma create_icc_profile_with_Inr:
  assumes "create_icc_profile_with d c r g b = Inr p"
  obtains hdr D C W RX GX BX R G B where
    "length hdr = 128" and "take 12 (drop 24 hdr) = creation_date"
    and "create_text_desc_tag d = Inr D" and "create_text_desc_tag c = Inr C"
    and "create_xyz_tag 0x0000F6D6 0x00010000 0x0000D32D = Inr W"
    and "create_xyz_tag 0x0000F351 0x00010000 0x0000D32D = Inr RX"
    and "create_xyz_tag 0x00006FA2 0x00010000 0x0000D32D = Inr GX"
    and "create_xyz_tag 0x00006FA2 0x00010000 0x0000D32D = Inr BX"
    and "create_curve_tag (create_curve_data r) = Inr R"
    and "create_curve_tag (create_curve_data g) = Inr G"
    and "create_curve_tag (create_curve_data b) = Inr B"
    and "assemble hdr 9 (tag_signatures D C W RX GX BX R G B) = Inr p"
proof -
  from assms obtain illuminant D C W RX GX BX R G B where
    "pack_III 0x0000F6D6 0x00010000 0x0000D32D = Inr illuminant"
    "create_text_desc_tag d = Inr D" "create_text_desc_tag c = Inr C"
    "create_xyz_tag 0x0000F6D6 0x00010000 0x0000D32D = Inr W"
    "create_xyz_tag 0x0000F351 0x00010000 0x0000D32D = Inr RX"
    "create_xyz_tag 0x00006FA2 0x00010000 0x0000D32D = Inr GX"
    "create_xyz_tag 0x00006FA2 0x00010000 0x0000D32D = Inr BX"
    "create_curve_tag (create_curve_data r) = Inr R"
    "create_curve_tag (create_curve_data g) = Inr G"
    "create_curve_tag (create_curve_data b) = Inr B"
    "assemble (header illuminant) 9 (tag_signatures D C W RX GX BX R G B) = Inr p"
    unfolding create_icc_profile_with_def Let_def bindE_Inr_iff by blast
  moreover from this(1) have "length illuminant = 12"
    by (auto simp: pack_III_def bindE_Inr_iff pack_I_Inr_iff)
  ultimately show thesis
    using that [of "header illuminant" D C W RX GX BX R G B]
    by (simp add: length_header creation_date_header)
qed

section \<open>When the assembly succeeds\<close>

lemma tag_loop_succeeds:
  assumes "0 \<le> off"
    and "off + int (length (concat (map (\<lambda>t. pad_to_4bytes (snd t)) tags))) < 2 ^ 32"
  shows "tag_loop tags (es, sec, off) =
     Inr (es @ table_entries off tags,
          sec @ concat (map (\<lambda>t. pad_to_4bytes (snd t)) tags),
          off + int (length (concat (map (\<lambda>t. pad_to_4bytes (snd t)) tags))))"
  using assms
proof (induction tags arbitrary: es sec off)
  case Nil
  then show ?case by simp
next
  case (Cons t tags)
  obtain sig tag_data where t: "t = (sig, tag_data)" by (cases t)
  define n where "n = int (length (pad_to_4bytes tag_data))"
  define m where "m = int (length (concat (map (\<lambda>t. pad_to_4bytes (snd t)) tags)))"
  from Cons.prems have bounds: "0 \<le> off" "off + n + m < 2 ^ 32"
    by (simp_all add: t n_def m_def)
  have nonneg: "0 \<le> n" "0 \<le> m" by (simp_all add: n_def m_def)
  with bounds have fields: "pack_I off = Inr (u32_bytes off)" "pack_I n = Inr (u32_bytes n)"
    by (simp_all add: pack_I_def)
  from bounds nonneg have "0 \<le> off + n" and "off + n + m < 2 ^ 32" by simp_all
  then have "tag_loop tags (es @ [sig @ u32_bytes off @ u32_bytes n],
        sec @ pad_to_4bytes tag_data, off + n) =
      Inr ((es @ [sig @ u32_bytes off @ u32_bytes n]) @ table_entries (off + n) tags,
           (sec @ pad_to_4bytes tag_data) @ concat (map (\<lambda>t. pad_to_4bytes (snd t)) tags),
           off + n + m)"
    unfolding m_def by (rule Cons.IH)
  then show ?case
    using fields by (simp add: t Let_def n_def [symmetric] m_def [symmetric] add.assoc)
qed

lemma assemble_succeeds:
  assumes "0 \<le> cnt"
    and "132 + cnt * 12 + int (length (concat (map (\<lambda>t. pad_to_4bytes (snd t)) tags))) < 2 ^ 32"
    and "int (length (hdr @ u32_bytes cnt @ concat (table_entries (132 + cnt * 12) tags) @
           concat (map (\<lambda>t. pad_to_4bytes (snd t)) tags))) < 2 ^ 32"
  shows "\<exists>p. assemble hdr cnt tags = Inr p"
proof -
  from assms(1) have "0 \<le> 132 + cnt * 12" by simp
  from tag_loop_succeeds [OF this assms(2), of "[]" "[]"]
  have loop: "tag_loop tags ([], [], 128 + 4 + cnt * 12) =
      Inr (table_entries (132 + cnt * 12) tags,
           concat (map (\<lambda>t. pad_to_4bytes (snd t)) tags),
           132 + cnt * 12 + int (length (concat (map (\<lambda>t. pad_to_4bytes (snd t)) tags))))"
    by simp
  from assms(1,2) have "cnt < 2 ^ 32" by simp
  with assms(1) have count: "pack_I cnt = Inr (u32_bytes cnt)" by (simp add: pack_I_def)
  from assms(3) show ?thesis
    unfolding assemble_def Let_def loop count by (simp add: pack_I_def)
qed

lemma create_icc_profile_with_succeeds:
  assumes d: "list_all (\<lambda>ch. ch < 128) d" and c: "list_all (\<lambda>ch. ch < 128) c"
    and short: "length d + length c < 2 ^ 31"
  shows "\<exists>p. create_icc_profile_with d c r g b = Inr p"
proof -
  from d short obtain D where D: "create_text_desc_tag d = Inr D"
    by (simp add: create_text_desc_tag_Inr_iff)
  from c short obtain C where C: "create_text_desc_tag c = Inr C"
    by (simp add: create_text_desc_tag_Inr_iff)
  obtain W where W: "create_xyz_tag 0x0000F6D6 0x00010000 0x0000D32D = Inr W"
    by (simp add: create_xyz_tag_Inr)
  obtain RX where RX: "create_xyz_tag 0x0000F351 0x00010000 0x0000D32D = Inr RX"
    by (simp add: create_xyz_tag_Inr)
  obtain GX where GX: "create_xyz_tag 0x00006FA2 0x00010000 0x0000D32D = Inr GX"
    by (simp add: create_xyz_tag_Inr)
  obtain R where R: "create_curve_tag (create_curve_data r) = Inr R"
    by (simp add: create_curve_tag_curve)
  obtain G where G: "create_curve_tag (create_curve_data g) = Inr G"
    by (simp add: create_curve_tag_curve)
  obtain B where B: "create_curve_tag (create_curve_data b) = Inr B"
    by (simp add: create_curve_tag_curve)
  obtain illuminant where illuminant:
    "pack_III 0x0000F6D6 0x00010000 0x0000D32D = Inr illuminant" "length illuminant = 12"
    by (simp add: pack_III_def pack_I_def)
  define tags where "tags = tag_signatures D C W RX GX GX R G B"
  have xyz: "length W = 20" "length RX = 20" "length GX = 20"
    using W RX GX by (auto simp: create_xyz_tag_Inr)
  have curves: "length R = 524" "length G = 524" "length B = 524"
    using R G B by (auto dest: length_curve_tag)
  have texts: "length D = 24 + length d" "length C = 24 + length c"
    using D C by (auto dest: length_text_desc_tag)
  have "length (pad_to_4bytes D) \<le> length D + 3" "length (pad_to_4bytes C) \<le> length C + 3"
    by (rule length_pad_to_4bytes_le)+
  with texts short have data:
    "int (length (concat (map (\<lambda>t. pad_to_4bytes (snd t)) tags))) < 2 ^ 31 + 1800"
    by (simp add: tags_def tag_signatures_def xyz curves pad_to_4bytes_aligned)
  have "length (concat (table_entries (132 + 9 * 12) tags)) = 12 * length tags"
    unfolding tags_def by (rule length_concat_table_entries) (rule signatures_tag_signatures)
  with data have "\<exists>p. assemble (header illuminant) 9 tags = Inr p"
    by (intro assemble_succeeds) (simp_all add: length_header illuminant tags_def)
  then show ?thesis
    unfolding create_icc_profile_with_def Let_def illuminant D C W RX GX R G B tags_def
    by simp
qed

lemma str_ascii: "list_all (\<lambda>ch. ch < 128) (str ''Red+22 Test Profile'')"
  "list_all (\<lambda>ch. ch < 128) (str ''Public Domain'')"
  by (simp_all add: str_def)

section \<open>The tag table of the profile\<close>

lemma tag_entry_span:
  assumes ok: "assemble hdr cnt tags = Inr p" and hdr: "length hdr = 128"
    and sigs: "\<forall>t \<in> set tags. length (fst t) = 4" and cnt: "cnt = int (length tags)"
    and i: "i < length tags" and entry: "tag_entry p i = (sig, off, len)"
  shows "132 + 12 * cnt \<le> off" and "int (length (snd (tags ! i))) \<le> len"
    and "off + len \<le> int (length p)"
proof -
  define before where
    "before = length (concat (map (\<lambda>t. pad_to_4bytes (snd t)) (take i tags)))"
  from entry have off: "off = 132 + cnt * 12 + int before"
    and len: "len = int (length (pad_to_4bytes (snd (tags ! i))))"
    unfolding tag_entry_assemble [OF ok hdr sigs cnt i] before_def by simp_all
  from off show "132 + 12 * cnt \<le> off" by simp
  from len show "int (length (snd (tags ! i))) \<le> len"
    by (simp add: length_pad_to_4bytes_ge)
  have "length (concat (map (\<lambda>t. pad_to_4bytes (snd t)) tags)) =
      before + length (pad_to_4bytes (snd (tags ! i))) +
      length (concat (map (\<lambda>t. pad_to_4bytes (snd t)) (drop (Suc i) tags)))"
    using arg_cong [OF concat_pad_split [OF i], of length] by (simp add: before_def)
  then have "before + length (pad_to_4bytes (snd (tags ! i)))
      \<le> length (concat (map (\<lambda>t. pad_to_4bytes (snd t)) tags))"
    by simp
  with off len show "off + len \<le> int (length p)"
    unfolding assemble_layout(3) [OF ok hdr sigs] by (simp add: cnt)
qed

lemma nonempty_tag_signatures:
  assumes "create_text_desc_tag d = Inr D" and "create_text_desc_tag c = Inr C"
    and "create_xyz_tag x1 y1 z1 = Inr W" and "create_xyz_tag x2 y2 z2 = Inr RX"
    and "create_xyz_tag x3 y3 z3 = Inr GX" and "create_xyz_tag x4 y4 z4 = Inr BX"
    and "create_curve_tag (create_curve_data r) = Inr R"
    and "create_curve_tag (create_curve_data g) = Inr G"
    and "create_curve_tag (create_curve_data b) = Inr B"
  shows "\<forall>t \<in> set (tag_signatures D C W RX GX BX R G B). 0 < length (snd t)"
proof -
  from assms(1,2) have "0 < length D" "0 < length C"
    by (auto dest: length_text_desc_tag)
  moreover from assms(3-6) have "0 < length W" "0 < length RX" "0 < length GX" "0 < length BX"
    by (auto simp: create_xyz_tag_def bindE_Inr_iff)
  moreover from assms(7-9) have "0 < length R" "0 < length G" "0 < length B"
    by (auto dest: length_curve_tag)
  ultimately show ?thesis by (simp add: tag_signatures_def)
qed

lemma tag_entry_later:
  assumes ok: "assemble hdr cnt tags = Inr p" and hdr: "length hdr = 128"
    and sigs: "\<forall>t \<in> set tags. length (fst t) = 4" and cnt: "cnt = int (length tags)"
    and ij: "i < j" "j < length tags"
    and this_entry: "tag_entry p i = (sig, off, len)"
    and later_entry: "tag_entry p j = (sig', off', len')"
  shows "off + len \<le> off'"
proof -
  from ij have i: "i < length tags" and j: "j < length tags" by simp_all
  from ij i have "take (Suc i) (take j tags) = take i tags @ [tags ! i]"
    by (simp add: take_Suc_conv_app_nth min_def)
  then have "length (concat (map (\<lambda>t. pad_to_4bytes (snd t)) (take (Suc i) (take j tags)))) =
      length (concat (map (\<lambda>t. pad_to_4bytes (snd t)) (take i tags)))
        + length (pad_to_4bytes (snd (tags ! i)))"
    by simp
  with length_concat_pad_take [of "Suc i" "take j tags"]
  have "length (concat (map (\<lambda>t. pad_to_4bytes (snd t)) (take i tags)))
      + length (pad_to_4bytes (snd (tags ! i)))
      \<le> length (concat (map (\<lambda>t. pad_to_4bytes (snd t)) (take j tags)))"
    by simp
  with this_entry later_entry show ?thesis
    unfolding tag_entry_assemble [OF ok hdr sigs cnt i] tag_entry_assemble [OF ok hdr sigs cnt j]
    by simp
qed

lemma length_pad_to_4bytes: "length (pad_to_4bytes data) = (length data + 3) div 4 * 4"
  unfolding pad_to_4bytes_def Let_def by (simp; presburger)

text \<open>
  Claim C3. In the tag table of the assembled profile the offsets are strictly
  increasing, every span (offset, length) lies within the data section, no two spans
  overlap, and two consecutive spans are at most 3 bytes apart.
\<close>

theorem tag_table_spans:
  assumes "create_icc_profile_with d c r g b = Inr p" and "i < 9"
  shows "case tag_entry p i of (sig, off, len) \<Rightarrow>
           data_start p \<le> off \<and> off + len \<le> int (length p) \<and>
           (\<forall>j. i < j \<and> j < 9 \<longrightarrow>
              (case tag_entry p j of (sig', off', len') \<Rightarrow> off < off' \<and> off + len \<le> off')) \<and>
           (Suc i < 9 \<longrightarrow>
              (case tag_entry p (Suc i) of (sig', off', len') \<Rightarrow> off' - (off + len) \<le> 3))"
proof -
  from assms(1) obtain hdr D C W RX GX BX R G B where hdr: "length hdr = 128"
    and tags: "create_text_desc_tag d = Inr D" "create_text_desc_tag c = Inr C"
      "create_xyz_tag 0x0000F6D6 0x00010000 0x0000D32D = Inr W"
      "create_xyz_tag 0x0000F351 0x00010000 0x0000D32D = Inr RX"
      "create_xyz_tag 0x00006FA2 0x00010000 0x0000D32D = Inr GX"
      "create_xyz_tag 0x00006FA2 0x00010000 0x0000D32D = Inr BX"
      "create_curve_tag (create_curve_data r) = Inr R"
      "create_curve_tag (create_curve_data g) = Inr G"
      "create_curve_tag (create_curve_data b) = Inr B"
    and ok: "assemble hdr 9 (tag_signatures D C W RX GX BX R G B) = Inr p"
    by (rule create_icc_profile_with_Inr)
  define ts where "ts = tag_signatures D C W RX GX BX R G B"
  note ok = ok [folded ts_def]
  have sigs: "\<forall>t \<in> set ts. length (fst t) = 4"
    unfolding ts_def by (rule signatures_tag_signatures)
  have cnt: "9 = int (length ts)" by (simp add: ts_def)
  have nonempty: "\<forall>t \<in> set ts. 0 < length (snd t)"
    unfolding ts_def using tags by (rule nonempty_tag_signatures)
  from assms(2) have i: "i < length ts" by (simp add: ts_def)
  have start: "data_start p = 240"
    by (simp add: data_start_def tag_count_field_assemble [OF ok hdr sigs])
  obtain sig off len where entry: "tag_entry p i = (sig, off, len)"
    by (cases "tag_entry p i")
  note span = tag_entry_span [OF ok hdr sigs cnt i entry]
  from nonempty i have "0 < int (length (snd (ts ! i)))" by simp
  with span(2) have len: "0 < len" by linarith
  have later: "off < off' \<and> off + len \<le> off'"
    if "i < j" and "j < 9" and "tag_entry p j = (sig', off', len')" for j sig' off' len'
  proof -
    from that(2) have "j < length ts" by (simp add: ts_def)
    from tag_entry_later [OF ok hdr sigs cnt that(1) this entry that(3)] len
    show ?thesis by simp
  qed
  have "off' - (off + len) \<le> 3"
    if "Suc i < 9" and "tag_entry p (Suc i) = (sig', off', len')" for sig' off' len'
  proof -
    from that(1) have "Suc i < length ts" by (simp add: ts_def)
    from tag_entry_next [OF ok hdr sigs cnt this entry that(2)] show ?thesis by simp
  qed
  with span later show ?thesis
    by (auto simp: entry start)
qed
text \<open>
  Claim C4. The assembled profile has exactly 9 tags, recorded in the tag table in this
  order: description, copyright, white point, red, green and blue primary, red, green
  and blue tone curve.
\<close>

theorem tag_table_order:
  assumes "create_icc_profile_with d c r g b = Inr p"
  shows "tag_count_field p = 9
     \<and> map (\<lambda>i. fst (tag_entry p i)) [0, 1, 2, 3, 4, 5, 6, 7, 8] =
         map ascii [''desc'', ''cprt'', ''wtpt'', ''rXYZ'', ''gXYZ'', ''bXYZ'',
                    ''rTRC'', ''gTRC'', ''bTRC'']
     \<and> (\<exists>D. create_text_desc_tag d = Inr D \<and> tag_payload p 0 = pad_to_4bytes D)
     \<and> (\<exists>C. create_text_desc_tag c = Inr C \<and> tag_payload p 1 = pad_to_4bytes C)
     \<and> create_xyz_tag 0x0000F6D6 0x00010000 0x0000D32D = Inr (tag_payload p 2)
     \<and> create_xyz_tag 0x0000F351 0x00010000 0x0000D32D = Inr (tag_payload p 3)
     \<and> create_xyz_tag 0x00006FA2 0x00010000 0x0000D32D = Inr (tag_payload p 4)
     \<and> create_xyz_tag 0x00006FA2 0x00010000 0x0000D32D = Inr (tag_payload p 5)
     \<and> create_curve_tag (create_curve_data r) = Inr (tag_payload p 6)
     \<and> create_curve_tag (create_curve_data g) = Inr (tag_payload p 7)
     \<and> create_curve_tag (create_curve_data b) = Inr (tag_payload p 8)"
proof -
  from assms obtain hdr D C W RX GX BX R G B where hdr: "length hdr = 128"
    and tags: "create_text_desc_tag d = Inr D" "create_text_desc_tag c = Inr C"
      "create_xyz_tag 0x0000F6D6 0x00010000 0x0000D32D = Inr W"
      "create_xyz_tag 0x0000F351 0x00010000 0x0000D32D = Inr RX"
      "create_xyz_tag 0x00006FA2 0x00010000 0x0000D32D = Inr GX"
      "create_xyz_tag 0x00006FA2 0x00010000 0x0000D32D = Inr BX"
      "create_curve_tag (create_curve_data r) = Inr R"
      "create_curve_tag (create_curve_data g) = Inr G"
      "create_curve_tag (create_curve_data b) = Inr B"
    and ok: "assemble hdr 9 (tag_signatures D C W RX GX BX R G B) = Inr p"
    by (rule create_icc_profile_with_Inr)
  define ts where "ts = tag_signatures D C W RX GX BX R G B"
  note ok = ok [folded ts_def]
  have sigs: "\<forall>t \<in> set ts. length (fst t) = 4"
    unfolding ts_def by (rule signatures_tag_signatures)
  have cnt: "9 = int (length ts)" by (simp add: ts_def)
  have entry: "fst (tag_entry p i) = fst (ts ! i)" if "i < 9" for i
    using that by (simp add: tag_entry_assemble [OF ok hdr sigs cnt] ts_def)
  have payload: "tag_payload p i = pad_to_4bytes (snd (ts ! i))" if "i < 9" for i
    using that by (simp add: tag_payload_assemble [OF ok hdr sigs cnt] ts_def)
  have xyz: "length W mod 4 = 0" "length RX mod 4 = 0" "length GX mod 4 = 0"
      "length BX mod 4 = 0"
    using tags(3-6) by (auto simp: create_xyz_tag_Inr)
  have curves: "length R mod 4 = 0" "length G mod 4 = 0" "length B mod 4 = 0"
    using tags(7-9) by (auto dest: length_curve_tag)
  have "tag_count_field p = 9"
    by (rule tag_count_field_assemble [OF ok hdr sigs])
  moreover have "map (\<lambda>i. fst (tag_entry p i)) [0, 1, 2, 3, 4, 5, 6, 7, 8] =
      map ascii [''desc'', ''cprt'', ''wtpt'', ''rXYZ'', ''gXYZ'', ''bXYZ'',
                 ''rTRC'', ''gTRC'', ''bTRC'']"
    by (simp add: entry) (simp add: ts_def tag_signatures_def)
  moreover have "tag_payload p 0 = pad_to_4bytes D" "tag_payload p 1 = pad_to_4bytes C"
    "tag_payload p 2 = W" "tag_payload p 3 = RX" "tag_payload p 4 = GX" "tag_payload p 5 = BX"
    "tag_payload p 6 = R" "tag_payload p 7 = G" "tag_payload p 8 = B"
    by (simp_all add: payload)
      (simp_all add: ts_def tag_signatures_def pad_to_4bytes_aligned xyz curves)
  ultimately show ?thesis
    using tags by simp
qed

text \<open>
  Claim C10. The green-primary and the blue-primary tags of the profile have the same
  payload, byte for byte (X = 0x00006FA2, Y = 0x00010000, Z = 0x0000D32D); their
  signatures in the tag table differ.
\<close>

theorem green_blue_primaries:
  assumes "create_icc_profile_with d c r g b = Inr p"
  shows "tag_payload p 4 = tag_payload p 5
     \<and> tag_payload p 4 =
         ascii ''XYZ '' @ [0, 0, 0, 0] @
         [0x00, 0x00, 0x6F, 0xA2] @ [0x00, 0x01, 0x00, 0x00] @ [0x00, 0x00, 0xD3, 0x2D]
     \<and> fst (tag_entry p 4) = ascii ''gXYZ'' \<and> fst (tag_entry p 5) = ascii ''bXYZ''
     \<and> fst (tag_entry p 4) \<noteq> fst (tag_entry p 5)"
proof -
  from assms obtain hdr D C W RX GX BX R G B where hdr: "length hdr = 128"
    and green: "create_xyz_tag 0x00006FA2 0x00010000 0x0000D32D = Inr GX"
    and blue: "create_xyz_tag 0x00006FA2 0x00010000 0x0000D32D = Inr BX"
    and ok: "assemble hdr 9 (tag_signatures D C W RX GX BX R G B) = Inr p"
    by (rule create_icc_profile_with_Inr)
  define ts where "ts = tag_signatures D C W RX GX BX R G B"
  note ok = ok [folded ts_def]
  have sigs: "\<forall>t \<in> set ts. length (fst t) = 4"
    unfolding ts_def by (rule signatures_tag_signatures)
  have cnt: "9 = int (length ts)" by (simp add: ts_def)
  have "create_xyz_tag 0x00006FA2 0x00010000 0x0000D32D =
      Inr (ascii ''XYZ '' @ [0, 0, 0, 0] @
           [0x00, 0x00, 0x6F, 0xA2] @ [0x00, 0x01, 0x00, 0x00] @ [0x00, 0x00, 0xD3, 0x2D])"
    by (simp add: create_xyz_tag_Inr u32_bytes_def)
  with green have GX: "GX = ascii ''XYZ '' @ [0, 0, 0, 0] @
      [0x00, 0x00, 0x6F, 0xA2] @ [0x00, 0x01, 0x00, 0x00] @ [0x00, 0x00, 0xD3, 0x2D]"
    by simp
  from green blue have BX: "BX = GX" by simp
  have "tag_payload p 4 = pad_to_4bytes (snd (ts ! 4))"
    "tag_payload p 5 = pad_to_4bytes (snd (ts ! 5))"
    by (simp_all add: tag_payload_assemble [OF ok hdr sigs cnt] ts_def)
  then have payloads: "tag_payload p 4 = GX" "tag_payload p 5 = GX"
    by (simp_all add: ts_def tag_signatures_def BX pad_to_4bytes_aligned GX)
  have "fst (tag_entry p 4) = fst (ts ! 4)" "fst (tag_entry p 5) = fst (ts ! 5)"
    by (simp_all add: tag_entry_assemble [OF ok hdr sigs cnt] ts_def)
  then have entries: "fst (tag_entry p 4) = ascii ''gXYZ''" "fst (tag_entry p 5) = ascii ''bXYZ''"
    by (simp_all add: ts_def tag_signatures_def)
  have "ascii ''gXYZ'' \<noteq> ascii ''bXYZ''" by (simp add: ascii_def)
  with payloads entries GX show ?thesis
    by simp
qed

section \<open>The size field\<close>

text \<open>
  Claim C2. The first four bytes of an assembled profile are the big-endian encoding of
  the length of the whole profile: the profile has these four bytes, they are
  \<open>struct.pack('>I', len(profile))\<close>, and read back as a number they give the length. The
  length is the 240 bytes of header and tag table, the padded text tags, and the 1652
  bytes of the XYZ and curve tags.
\<close>

theorem profile_size_field:
  assumes "create_icc_profile_with d c r g b = Inr p"
  shows "4 \<le> length p
     \<and> take 4 p = u32_bytes (int (length p))
     \<and> size_field p = int (length p)
     \<and> int (length p) < 2 ^ 32
     \<and> length p = 1892 + (length d + 27) div 4 * 4 + (length c + 27) div 4 * 4"
proof -
  from assms obtain hdr D C W RX GX BX R G B where hdr: "length hdr = 128"
    and tags: "create_text_desc_tag d = Inr D" "create_text_desc_tag c = Inr C"
      "create_xyz_tag 0x0000F6D6 0x00010000 0x0000D32D = Inr W"
      "create_xyz_tag 0x0000F351 0x00010000 0x0000D32D = Inr RX"
      "create_xyz_tag 0x00006FA2 0x00010000 0x0000D32D = Inr GX"
      "create_xyz_tag 0x00006FA2 0x00010000 0x0000D32D = Inr BX"
      "create_curve_tag (create_curve_data r) = Inr R"
      "create_curve_tag (create_curve_data g) = Inr G"
      "create_curve_tag (create_curve_data b) = Inr B"
    and ok: "assemble hdr 9 (tag_signatures D C W RX GX BX R G B) = Inr p"
    by (rule create_icc_profile_with_Inr)
  define ts where "ts = tag_signatures D C W RX GX BX R G B"
  note ok = ok [folded ts_def]
  have sigs: "\<forall>t \<in> set ts. length (fst t) = 4"
    unfolding ts_def by (rule signatures_tag_signatures)
  from tags(1,2) have texts: "length D = 24 + length d" "length C = 24 + length c"
    by (auto dest: length_text_desc_tag)
  from tags(3-6) have xyz: "length W = 20" "length RX = 20" "length GX = 20" "length BX = 20"
    by (auto simp: create_xyz_tag_Inr)
  from tags(7-9) have curves: "length R = 524" "length G = 524" "length B = 524"
    by (auto dest: length_curve_tag)
  have "length p = 132 + 12 * length ts +
      length (concat (map (\<lambda>t. pad_to_4bytes (snd t)) ts))"
    by (rule assemble_layout(3) [OF ok hdr sigs])
  then have len: "length p = 1892 + (length d + 27) div 4 * 4 + (length c + 27) div 4 * 4"
    by (simp add: ts_def tag_signatures_def length_pad_to_4bytes texts xyz curves
        add.commute)
  have small: "int (length p) < 2 ^ 32"
    by (rule assemble_layout(2) [OF ok hdr sigs])
  have "p = u32_bytes (int (length p)) @ drop 4 hdr @ u32_bytes 9 @
      concat (table_entries (132 + 9 * 12) ts) @
      concat (map (\<lambda>t. pad_to_4bytes (snd t)) ts)"
    by (rule assemble_layout(1) [OF ok hdr sigs])
  then have "take 4 p = take 4 (u32_bytes (int (length p)) @ drop 4 hdr @ u32_bytes 9 @
      concat (table_entries (132 + 9 * 12) ts) @
      concat (map (\<lambda>t. pad_to_4bytes (snd t)) ts))"
    by (rule arg_cong)
  then have first: "take 4 p = u32_bytes (int (length p))"
    by simp
  with small have "size_field p = int (length p)"
    by (simp add: size_field_def be_uint_u32_bytes)
  moreover from len have "4 \<le> length p" by simp
  ultimately show ?thesis using first small len by blast
qed

section \<open>The profile written by the script\<close>

lemma script_profile_succeeds:
  "\<exists>p. create_icc_profile_with (str ''Red+22 Test Profile'') (str ''Public Domain'') 22 0 0
     = Inr p"
  by (rule create_icc_profile_with_succeeds) (simp_all add: str_ascii, simp add: str_def)

lemma script_profile_entries:
  assumes "create_icc_profile_with (str ''Red+22 Test Profile'') (str ''Public Domain'') 22 0 0
     = Inr p"
  shows "length p = 1976"
    and "map (tag_entry p) [0, 1, 2, 3, 4, 5, 6, 7, 8] =
      [(ascii ''desc'', 240, 44), (ascii ''cprt'', 284, 40), (ascii ''wtpt'', 324, 20),
       (ascii ''rXYZ'', 344, 20), (ascii ''gXYZ'', 364, 20), (ascii ''bXYZ'', 384, 20),
       (ascii ''rTRC'', 404, 524), (ascii ''gTRC'', 928, 524), (ascii ''bTRC'', 1452, 524)]"
proof -
  from assms obtain hdr D C W RX GX BX R G B where hdr: "length hdr = 128"
    and tags: "create_text_desc_tag (str ''Red+22 Test Profile'') = Inr D"
      "create_text_desc_tag (str ''Public Domain'') = Inr C"
      "create_xyz_tag 0x0000F6D6 0x00010000 0x0000D32D = Inr W"
      "create_xyz_tag 0x0000F351 0x00010000 0x0000D32D = Inr RX"
      "create_xyz_tag 0x00006FA2 0x00010000 0x0000D32D = Inr GX"
      "create_xyz_tag 0x00006FA2 0x00010000 0x0000D32D = Inr BX"
      "create_curve_tag (create_curve_data 22) = Inr R"
      "create_curve_tag (create_curve_data 0) = Inr G"
      "create_curve_tag (create_curve_data 0) = Inr B"
    and ok: "assemble hdr 9 (tag_signatures D C W RX GX BX R G B) = Inr p"
    by (rule create_icc_profile_with_Inr)
  define ts where "ts = tag_signatures D C W RX GX BX R G B"
  note ok = ok [folded ts_def]
  have sigs: "\<forall>t \<in> set ts. length (fst t) = 4"
    unfolding ts_def by (rule signatures_tag_signatures)
  have cnt: "9 = int (length ts)" by (simp add: ts_def)
  from tags(1,2) have texts: "length D = 43" "length C = 37"
    by (auto dest: length_text_desc_tag simp: str_def)
  from tags(3-6) have xyz: "length W = 20" "length RX = 20" "length GX = 20" "length BX = 20"
    by (auto simp: create_xyz_tag_Inr)
  from tags(7-9) have curves: "length R = 524" "length G = 524" "length B = 524"
    by (auto dest: length_curve_tag)
  note lengths = length_pad_to_4bytes texts xyz curves
  show "length p = 1976"
    unfolding assemble_layout(3) [OF ok hdr sigs]
    by (simp add: ts_def tag_signatures_def lengths)
  have "tag_entry p i =
      (fst (ts ! i),
       132 + 9 * 12 + int (length (concat (map (\<lambda>t. pad_to_4bytes (snd t)) (take i ts)))),
       int (length (pad_to_4bytes (snd (ts ! i)))))" if "i < 9" for i
    using that by (intro tag_entry_assemble [OF ok hdr sigs cnt]) (simp add: ts_def)
  then show "map (tag_entry p) [0, 1, 2, 3, 4, 5, 6, 7, 8] =
      [(ascii ''desc'', 240, 44), (ascii ''cprt'', 284, 40), (ascii ''wtpt'', 324, 20),
       (ascii ''rXYZ'', 344, 20), (ascii ''gXYZ'', 364, 20), (ascii ''bXYZ'', 384, 20),
       (ascii ''rTRC'', 404, 524), (ascii ''gTRC'', 928, 524), (ascii ''bTRC'', 1452, 524)]"
    by (simp add: ts_def tag_signatures_def lengths)
qed

theorem profile_size_field_witness:
  "\<exists>p. create_icc_profile_with (str ''Red+22 Test Profile'') (str ''Public Domain'') 22 0 0 = Inr p
     \<and> length p = 1976 \<and> take 4 p = [0x00, 0x00, 0x07, 0xB8] \<and> size_field p = 1976"
proof -
  from script_profile_succeeds obtain p where
    p: "create_icc_profile_with (str ''Red+22 Test Profile'') (str ''Public Domain'') 22 0 0
      = Inr p"
    by blast
  from profile_size_field [OF p] have first: "take 4 p = u32_bytes (int (length p))"
    and size: "size_field p = int (length p)"
    and "length p = 1892 + (length (str ''Red+22 Test Profile'') + 27) div 4 * 4
        + (length (str ''Public Domain'') + 27) div 4 * 4"
    by simp_all
  then have len: "length p = 1976" by (simp add: str_def)
  have "u32_bytes 1976 = [0x00, 0x00, 0x07, 0xB8]" by (simp add: u32_bytes_def)
  with first size len have "take 4 p = [0x00, 0x00, 0x07, 0xB8]" "size_field p = 1976"
    by simp_all
  with p len show ?thesis by blast
qed

theorem tag_table_spans_witness:
  "\<exists>p. create_icc_profile_with (str ''Red+22 Test Profile'') (str ''Public Domain'') 22 0 0 = Inr p
     \<and> length p = 1976 \<and> data_start p \<le> 240
     \<and> tag_entry p 0 = (ascii ''desc'', 240, 44) \<and> tag_entry p 1 = (ascii ''cprt'', 284, 40)
     \<and> tag_entry p 8 = (ascii ''bTRC'', 1452, 524)"
proof -
  from script_profile_succeeds obtain p where
    p: "create_icc_profile_with (str ''Red+22 Test Profile'') (str ''Public Domain'') 22 0 0
      = Inr p"
    by blast
  from script_profile_entries [OF p] have entries: "length p = 1976"
    "tag_entry p 0 = (ascii ''desc'', 240, 44)" "tag_entry p 1 = (ascii ''cprt'', 284, 40)"
    "tag_entry p 8 = (ascii ''bTRC'', 1452, 524)"
    by simp_all
  have "(0::nat) < 9" by simp
  from tag_table_spans [OF p this] have "data_start p \<le> 240"
    by (simp add: entries)
  with p entries show ?thesis by blast
qed

theorem tag_table_order_witness:
  "\<exists>p. create_icc_profile_with (str ''Red+22 Test Profile'') (str ''Public Domain'') 22 0 0 = Inr p
     \<and> tag_count_field p = 9 \<and> fst (tag_entry p 0) = ascii ''desc''
     \<and> fst (tag_entry p 8) = ascii ''bTRC''
     \<and> create_curve_tag (create_curve_data 22) = Inr (tag_payload p 6)"
proof -
  from script_profile_succeeds obtain p where
    p: "create_icc_profile_with (str ''Red+22 Test Profile'') (str ''Public Domain'') 22 0 0
      = Inr p"
    by blast
  from tag_table_order [OF p] have "tag_count_field p = 9 \<and> fst (tag_entry p 0) = ascii ''desc''
     \<and> fst (tag_entry p 8) = ascii ''bTRC''
     \<and> create_curve_tag (create_curve_data 22) = Inr (tag_payload p 6)"
    by simp
  with p show ?thesis by blast
qed

theorem green_blue_primaries_witness:
  "\<exists>p. create_icc_profile_with (str ''Red+22 Test Profile'') (str ''Public Domain'') 22 0 0 = Inr p
     \<and> tag_payload p 4 = tag_payload p 5 \<and> length (tag_payload p 4) = 20
     \<and> fst (tag_entry p 4) = ascii ''gXYZ'' \<and> fst (tag_entry p 5) = ascii ''bXYZ''"
proof -
  from script_profile_succeeds obtain p where
    p: "create_icc_profile_with (str ''Red+22 Test Profile'') (str ''Public Domain'') 22 0 0
      = Inr p"
    by blast
  from green_blue_primaries [OF p] have same: "tag_payload p 4 = tag_payload p 5"
    and bytes: "tag_payload p 4 = ascii ''XYZ '' @ [0, 0, 0, 0] @
      [0x00, 0x00, 0x6F, 0xA2] @ [0x00, 0x01, 0x00, 0x00] @ [0x00, 0x00, 0xD3, 0x2D]"
    and sigs: "fst (tag_entry p 4) = ascii ''gXYZ''" "fst (tag_entry p 5) = ascii ''bXYZ''"
    by blast+
  have "length (tag_payload p 4) = 20" by (simp add: bytes)
  with p same sigs show ?thesis by blast
qed

section \<open>The creation date and the file written\<close>

text \<open>
  Bytes 24 to 35 of every profile returned are the creation date written in the source,
  whatever the texts and the offsets. The script, whose texts and offsets are constants,
  returns a profile and writes it to its output file.
\<close>

lemma creation_date_profile:
  assumes "create_icc_profile_with d c r g b = Inr p"
  shows "take 12 (drop 24 p) = creation_date"
proof -
  from assms obtain hdr tags where hdr: "length hdr = 128"
    and date: "take 12 (drop 24 hdr) = creation_date"
    and ok: "assemble hdr 9 tags = Inr p"
    by (rule create_icc_profile_with_Inr)
  define profile where "profile = hdr @ u32_bytes 9 @
     concat (table_entries (132 + 9 * 12) tags) @
     concat (map (\<lambda>t. pad_to_4bytes (snd t)) tags)"
  from assemble_Inr(1) [OF ok] have p: "p = u32_bytes (int (length profile)) @ drop 4 profile"
    by (simp add: profile_def)
  have "drop 24 p = drop 24 profile"
    by (subst p) (simp add: profile_def hdr)
  also have "take 12 \<dots> = take 12 (drop 24 hdr)"
    by (simp add: profile_def hdr)
  finally show ?thesis by (simp add: date)
qed

lemma script_writes_profile:
  "\<exists>p. create_icc_profile = Inr p \<and> take 12 (drop 24 p) = creation_date
      \<and> (\<forall>w. main w = (Inr (), w\<lparr>files := (files w)(output_file \<mapsto> p)\<rparr>))"
proof -
  from script_profile_succeeds obtain p where p: "create_icc_profile = Inr p"
    unfolding create_icc_profile_def by blast
  then have "take 12 (drop 24 p) = creation_date"
    unfolding create_icc_profile_def by (rule creation_date_profile)
  moreover from p have "\<forall>w. main w = (Inr (), w\<lparr>files := (files w)(output_file \<mapsto> p)\<rparr>)"
    by (simp add: main_def main_with_def create_icc_profile_def)
  ultimately show ?thesis using p by blast
qed

section \<open>Text that is not ASCII\<close>

lemma create_icc_profile_with_desc_error:
  assumes "create_text_desc_tag d = Inl e"
  shows "create_icc_profile_with d c r g b = Inl e"
  by (simp add: create_icc_profile_with_def Let_def pack_III_def pack_I_def
      create_curve_tag_curve assms)

lemma create_icc_profile_with_copyright_error:
  assumes "create_text_desc_tag d = Inr D" and "create_text_desc_tag c = Inl e"
  shows "create_icc_profile_with d c r g b = Inl e"
  by (simp add: create_icc_profile_with_def Let_def pack_III_def pack_I_def
      create_curve_tag_curve assms)

lemma create_text_desc_tag_non_ascii:
  assumes "\<not> list_all (\<lambda>ch. ch < 128) t"
  shows "\<exists>e. create_text_desc_tag t = Inl e"
    and "int (length t) + 1 < 2 ^ 32 \<Longrightarrow>
      \<exists>stop. create_text_desc_tag t =
        Inl (UnicodeEncodeError t (length (takeWhile (\<lambda>ch. ch < 128) t)) stop)"
  using assms
  by (auto simp: create_text_desc_tag_def pack_I_def encode_ascii_def Let_def)

text \<open>
  Claim C5, as the code has it. If the description or the copyright text has a character
  outside 0..127, \<open>create_icc_profile\<close> raises before \<open>main\<close> opens the output file, and
  the files are left as they were. The error is that of the first text at fault: a
  \<open>UnicodeEncodeError\<close> with the text and the position of its first character that is
  not ASCII, when the length of the text fits its 32-bit length field.
\<close>

theorem non_ascii_text_rejected:
  assumes "\<not> list_all (\<lambda>ch. ch < 128) d \<or> \<not> list_all (\<lambda>ch. ch < 128) c"
  shows "\<exists>e. create_icc_profile_with d c r g b = Inl e
     \<and> main_with d c r g b w = (Inl e, w)
     \<and> (\<not> list_all (\<lambda>ch. ch < 128) d \<and> int (length d) + 1 < 2 ^ 32 \<longrightarrow>
          (\<exists>stop. e = UnicodeEncodeError d (length (takeWhile (\<lambda>ch. ch < 128) d)) stop))
     \<and> (list_all (\<lambda>ch. ch < 128) d \<and> int (length d) + 1 < 2 ^ 32
          \<and> int (length c) + 1 < 2 ^ 32 \<longrightarrow>
          (\<exists>stop. e = UnicodeEncodeError c (length (takeWhile (\<lambda>ch. ch < 128) c)) stop))"
proof (cases "create_text_desc_tag d")
  case (Inl e)
  then have profile: "create_icc_profile_with d c r g b = Inl e"
    by (rule create_icc_profile_with_desc_error)
  then have "main_with d c r g b w = (Inl e, w)"
    by (simp add: main_with_def)
  moreover have "\<exists>stop. e = UnicodeEncodeError d (length (takeWhile (\<lambda>ch. ch < 128) d)) stop"
    if "\<not> list_all (\<lambda>ch. ch < 128) d" and "int (length d) + 1 < 2 ^ 32"
    using create_text_desc_tag_non_ascii(2) [OF that] Inl by auto
  moreover have "\<not> (list_all (\<lambda>ch. ch < 128) d \<and> int (length d) + 1 < 2 ^ 32)"
    using Inl
    by (auto simp: create_text_desc_tag_def pack_I_def pack_H_def encode_ascii_def Let_def)
  ultimately show ?thesis using profile by blast
next
  case (Inr D)
  then have d: "list_all (\<lambda>ch. ch < 128) d"
    by (simp add: create_text_desc_tag_Inr_iff)
  with assms have c: "\<not> list_all (\<lambda>ch. ch < 128) c" by simp
  then obtain e where e: "create_text_desc_tag c = Inl e"
    using create_text_desc_tag_non_ascii(1) by blast
  with Inr have profile: "create_icc_profile_with d c r g b = Inl e"
    by (rule create_icc_profile_with_copyright_error)
  then have "main_with d c r g b w = (Inl e, w)"
    by (simp add: main_with_def)
  moreover have "\<exists>stop. e = UnicodeEncodeError c (length (takeWhile (\<lambda>ch. ch < 128) c)) stop"
    if "int (length c) + 1 < 2 ^ 32"
    using create_text_desc_tag_non_ascii(2) [OF c that] e by auto
  ultimately show ?thesis using profile d by blast
qed

lemma non_ascii_description:
  "create_icc_profile_with [233] (str ''Public Domain'') 22 0 0 =
     Inl (UnicodeEncodeError [233] 0 1)"
  by (rule create_icc_profile_with_desc_error)
    (simp add: create_text_desc_tag_def pack_I_def encode_ascii_def)

lemma non_ascii_copyright:
  "create_icc_profile_with (str ''Red+22 Test Profile'') [233] 22 0 0 =
     Inl (UnicodeEncodeError [233] 0 1)"
proof -
  obtain D where "create_text_desc_tag (str ''Red+22 Test Profile'') = Inr D"
    by (simp add: create_text_desc_tag_Inr_iff str_ascii, simp add: str_def)
  moreover have "create_text_desc_tag [233] = Inl (UnicodeEncodeError [233] 0 1)"
    by (simp add: create_text_desc_tag_def pack_I_def encode_ascii_def)
  ultimately show ?thesis by (rule create_icc_profile_with_copyright_error)
qed

theorem non_ascii_text_rejected_witness:
  "\<not> list_all (\<lambda>ch. ch < 128) [233 :: nat]
   \<and> main_with [233] (str ''Public Domain'') 22 0 0 \<lparr>clock = 0, files = Map.empty\<rparr> =
       (Inl (UnicodeEncodeError [233] 0 1), \<lparr>clock = 0, files = Map.empty\<rparr>)"
proof -
  have "\<not> list_all (\<lambda>ch. ch < 128) [233 :: nat]
      \<or> \<not> list_all (\<lambda>ch. ch < 128) (str ''Public Domain'')"
    by simp
  from non_ascii_text_rejected [OF this, of 22 0 0 "\<lparr>clock = 0, files = Map.empty\<rparr>"]
  show ?thesis
    by (auto simp: non_ascii_description)
qed

text \<open>
  Claim C5 as the specification states it: the error identifies the field at fault. The
  two runs below fail with the same error value, one for the description and one for
  the copyright text, so the error does not tell which field it was.
\<close>

theorem non_ascii_field_counterexample:
  "create_icc_profile_with [233] (str ''Public Domain'') 22 0 0 =
     create_icc_profile_with (str ''Red+22 Test Profile'') [233] 22 0 0
   \<and> create_icc_profile_with [233] (str ''Public Domain'') 22 0 0 =
     Inl (UnicodeEncodeError [233] 0 1)
   \<and> list_all (\<lambda>ch. ch < 128) (str ''Public Domain'')
   \<and> list_all (\<lambda>ch. ch < 128) (str ''Red+22 Test Profile'')"
  by (simp add: non_ascii_description non_ascii_copyright str_ascii)

end
